theory Spec2Isabelle
  imports Main "HOL-Library.Char_ord" "HOL-Library.List_Lexorder" "HOL-Library.Product_Lexorder"
begin

section \<open>Values, exceptions and documents (database.py)\<close>

text \<open>
  Settings are arbitrary JSON; the configuration operations only copy them.
  Strings are byte strings, compared bytewise as the document store does.
\<close>

datatype json =
    JNull
  | JBool bool
  | JNum int
  | JStr string
  | JArr "json list"
  | JObj "(string \<times> json) list"

text \<open>
  The exceptions that cross the functions of \<^verbatim>\<open>ConfigurationManager\<close>:
  Python's \<^verbatim>\<open>ValueError\<close> and \<^verbatim>\<open>RuntimeError\<close>, pymongo's
  \<^verbatim>\<open>DuplicateKeyError\<close>, and any other failure of a store call
  (connection loss, timeout), each with its message.
\<close>

datatype exn =
    ValueError string
  | RuntimeError string
  | DuplicateKeyError string
  | PyMongoError string

fun str_exn :: "exn \<Rightarrow> string" where
  "str_exn (ValueError m) = m"
| "str_exn (RuntimeError m) = m"
| "str_exn (DuplicateKeyError m) = m"
| "str_exn (PyMongoError m) = m"

text \<open>A stored configuration version. \<open>oid\<close> is the store-assigned \<^verbatim>\<open>_id\<close>.\<close>

record document =
  oid :: nat
  config_id :: string
  version :: int
  app_name :: string
  environment :: string
  settings :: json
  created_at :: string
  updated_at :: string
  updated_by :: "string option"
  change_notes :: string

text \<open>
  The \<^verbatim>\<open>configurations\<close> collection: its documents in insertion order and the
  next \<^verbatim>\<open>_id\<close> to hand out.
\<close>

record collection =
  docs :: "document list"
  next_oid :: nat

definition empty_collection :: collection where
  "empty_collection = \<lparr>docs = [], next_oid = 0\<rparr>"

text \<open>
  The \<^verbatim>\<open>config_data\<close> dictionary of \<^verbatim>\<open>create_config\<close>; \<open>None\<close> is a key
  that is not in the dictionary.
\<close>

record config_data =
  cd_config_id :: "string option"
  cd_app_name :: "string option"
  cd_environment :: "string option"
  cd_settings :: "json option"

subsection \<open>Python helpers\<close>

text \<open>\<^verbatim>\<open>x or default\<close> on an optional string: \<^verbatim>\<open>None\<close> and \<^verbatim>\<open>""\<close> are falsy.\<close>

definition py_or :: "string option \<Rightarrow> string \<Rightarrow> string" where
  "py_or x d = (case x of None \<Rightarrow> d | Some s \<Rightarrow> if s = [] then d else s)"

text \<open>Truthiness of an optional string, as in \<^verbatim>\<open>if app_name:\<close>.\<close>

definition truthy :: "string option \<Rightarrow> bool" where
  "truthy x = (case x of None \<Rightarrow> False | Some s \<Rightarrow> s \<noteq> [])"

fun str_nat :: "nat \<Rightarrow> string" where
  "str_nat n =
     (if n < 10 then [''0123456789'' ! n]
      else str_nat (n div 10) @ [''0123456789'' ! (n mod 10)])"

text \<open>\<^verbatim>\<open>str(i)\<close> of a Python integer, as an f-string formats it.\<close>

definition str_int :: "int \<Rightarrow> string" where
  "str_int i = (if i < 0 then CHR ''-'' # str_nat (nat (- i)) else str_nat (nat i))"

definition quoted :: "string \<Rightarrow> string" where
  "quoted s = CHR 0x27 # s @ [CHR 0x27]"

subsection \<open>The store's operations\<close>

text \<open>
  Every store call can fail for reasons outside the program. An operation is run
  with a \<open>fault\<close>: \<open>Some (k, m)\<close> makes its \<open>k\<close>-th store call (from 0) raise
  with message \<open>m\<close>, \<open>None\<close> lets every call through. One fault is enough, since
  the first exception ends the operation.
  Other callers' inserts may land between two store calls of an operation:
  \<open>others k\<close> are the documents they insert after store call \<open>k\<close>.
\<close>

type_synonym fault = "(nat \<times> string) option"

record env =
  now :: string
  fault :: fault
  others :: "nat \<Rightarrow> document list"

definition raises :: "fault \<Rightarrow> nat \<Rightarrow> string option" where
  "raises f k = (case f of None \<Rightarrow> None | Some (i, m) \<Rightarrow> if i = k then Some m else None)"

definition has_key :: "string \<Rightarrow> int \<Rightarrow> document \<Rightarrow> bool" where
  "has_key cid v d = (config_id d = cid \<and> version d = v)"

definition has_id :: "string \<Rightarrow> document \<Rightarrow> bool" where
  "has_id cid d = (config_id d = cid)"

text \<open>\<^verbatim>\<open>find_one(filter)\<close>: the first document in natural order passing the filter.\<close>

definition find_one :: "string option \<Rightarrow> (document \<Rightarrow> bool) \<Rightarrow> collection \<Rightarrow> exn + document option" where
  "find_one f p c = (case f of Some m \<Rightarrow> Inl (PyMongoError m) | None \<Rightarrow> Inr (find p (docs c)))"

text \<open>The first document of a list sorted by version descending (ties: the earliest).\<close>

fun max_version_doc :: "document list \<Rightarrow> document option" where
  "max_version_doc [] = None"
| "max_version_doc (d # ds) =
     (case max_version_doc ds of
        None \<Rightarrow> Some d
      | Some e \<Rightarrow> if version d < version e then Some e else Some d)"

text \<open>\<^verbatim>\<open>find_one(filter, sort=[("version", DESCENDING)])\<close>.\<close>

definition find_one_desc :: "string option \<Rightarrow> (document \<Rightarrow> bool) \<Rightarrow> collection \<Rightarrow> exn + document option" where
  "find_one_desc f p c =
     (case f of Some m \<Rightarrow> Inl (PyMongoError m)
      | None \<Rightarrow> Inr (max_version_doc (filter p (docs c))))"

text \<open>
  \<^verbatim>\<open>insert_one(doc)\<close> under the unique index on \<^verbatim>\<open>(config_id, version)\<close>:
  a document with a stored key is refused with \<^verbatim>\<open>DuplicateKeyError\<close>, any other is
  appended with a new \<^verbatim>\<open>_id\<close>, which is returned.
\<close>

definition insert_one :: "string option \<Rightarrow> collection \<Rightarrow> document \<Rightarrow> exn + (collection \<times> nat)" where
  "insert_one f c d =
     (case f of Some m \<Rightarrow> Inl (PyMongoError m)
      | None \<Rightarrow>
          if find (has_key (config_id d) (version d)) (docs c) \<noteq> None
          then Inl (DuplicateKeyError ''E11000 duplicate key error'')
          else Inr (\<lparr>docs = docs c @ [d\<lparr>oid := next_oid c\<rparr>], next_oid = Suc (next_oid c)\<rparr>,
                    next_oid c))"

text \<open>\<^verbatim>\<open>delete_many({"config_id": cid})\<close>: the number of documents removed.\<close>

definition delete_many :: "string option \<Rightarrow> string \<Rightarrow> collection \<Rightarrow> exn + (collection \<times> nat)" where
  "delete_many f cid c =
     (case f of Some m \<Rightarrow> Inl (PyMongoError m)
      | None \<Rightarrow> Inr (c\<lparr>docs := filter (\<lambda>d. \<not> has_id cid d) (docs c)\<rparr>,
                     length (filter (has_id cid) (docs c))))"

text \<open>The inserts of other callers, each through \<open>insert_one\<close>.\<close>

fun interfere :: "document list \<Rightarrow> collection \<Rightarrow> collection" where
  "interfere [] c = c"
| "interfere (d # ds) c =
     (case insert_one None c d of
        Inl _ \<Rightarrow> interfere ds c
      | Inr (c', _) \<Rightarrow> interfere ds c')"

section \<open>ConfigurationManager\<close>

subsection \<open>create_config\<close>

text \<open>
  The loop over \<^verbatim>\<open>required_fields\<close>: the name of the first field that is not in
  \<^verbatim>\<open>config_data\<close>, or the four values.
\<close>

definition required_fields :: "config_data \<Rightarrow> string + (string \<times> string \<times> string \<times> json)" where
  "required_fields cd =
     (case cd_config_id cd of
        None \<Rightarrow> Inl ''config_id''
      | Some cid \<Rightarrow>
          (case cd_app_name cd of
             None \<Rightarrow> Inl ''app_name''
           | Some app \<Rightarrow>
               (case cd_environment cd of
                  None \<Rightarrow> Inl ''environment''
                | Some environ \<Rightarrow>
                    (case cd_settings cd of
                       None \<Rightarrow> Inl ''settings''
                     | Some s \<Rightarrow> Inr (cid, app, environ, s)))))"

definition already_exists_msg :: "string \<Rightarrow> string" where
  "already_exists_msg cid = ''Configuration with config_id '' @ quoted cid @ '' already exists''"

text \<open>
  The \<^verbatim>\<open>except\<close> clauses of \<^verbatim>\<open>create_config\<close>, in their order:
  \<^verbatim>\<open>DuplicateKeyError\<close> becomes the already-exists \<^verbatim>\<open>ValueError\<close>, every other
  exception (a \<^verbatim>\<open>ValueError\<close> raised in the body too) becomes a \<^verbatim>\<open>RuntimeError\<close>.
\<close>

fun create_handler :: "string \<Rightarrow> exn \<Rightarrow> exn" where
  "create_handler cid (DuplicateKeyError m) = ValueError (already_exists_msg cid)"
| "create_handler cid e = RuntimeError (''Failed to create configuration: '' @ str_exn e)"

definition create_config ::
  "env \<Rightarrow> collection \<Rightarrow> config_data \<Rightarrow> string option \<Rightarrow> string option
     \<Rightarrow> (exn + document) \<times> collection" where
  "create_config e c cd who cn =
     (case required_fields cd of
        Inl f \<Rightarrow> (Inl (create_handler [] (ValueError (''Missing required field: '' @ f))), c)
      | Inr (cid, app, environ, s) \<Rightarrow>
          (case find_one (raises (fault e) 0) (has_id cid) c of
             Inl x \<Rightarrow> (Inl (create_handler cid x), c)
           | Inr (Some existing_config) \<Rightarrow>
               (Inl (create_handler cid (ValueError (already_exists_msg cid))), c)
           | Inr None \<Rightarrow>
               let document =
                     \<lparr>oid = 0, config_id = cid, version = 1,
                      app_name = app, environment = environ, settings = s,
                      created_at = now e, updated_at = now e,
                      updated_by = who,
                      change_notes = py_or cn ''Initial configuration creation''\<rparr>;
                   c1 = interfere (others e 0) c
               in (case insert_one (raises (fault e) 1) c1 document of
                     Inl x \<Rightarrow> (Inl (create_handler cid x), c1)
                   | Inr (c2, i) \<Rightarrow> (Inr (document\<lparr>oid := i\<rparr>), c2))))"

subsection \<open>get_latest_config, get_config_version\<close>

definition get_latest_config :: "string option \<Rightarrow> collection \<Rightarrow> string \<Rightarrow> exn + document option" where
  "get_latest_config f c cid =
     (case find_one_desc f (has_id cid) c of
        Inl x \<Rightarrow> Inl (RuntimeError (''Failed to retrieve configuration: '' @ str_exn x))
      | Inr r \<Rightarrow> Inr r)"

text \<open>
  \<^verbatim>\<open>get_config_version\<close> raises nothing: its \<^verbatim>\<open>except Exception\<close> logs and
  returns \<^verbatim>\<open>None\<close>.
\<close>

definition get_config_version :: "string option \<Rightarrow> collection \<Rightarrow> string \<Rightarrow> int \<Rightarrow> document option" where
  "get_config_version f c cid v =
     (case find_one f (has_key cid v) c of
        Inl x \<Rightarrow> None
      | Inr r \<Rightarrow> r)"

subsection \<open>update_config\<close>

text \<open>\<^verbatim>\<open>except ValueError: raise\<close>, then \<^verbatim>\<open>except Exception\<close>.\<close>

fun reraise_handler :: "string \<Rightarrow> exn \<Rightarrow> exn" where
  "reraise_handler what (ValueError m) = ValueError m"
| "reraise_handler what e = RuntimeError (''Failed to '' @ what @ '' configuration: '' @ str_exn e)"

definition update_config ::
  "env \<Rightarrow> collection \<Rightarrow> string \<Rightarrow> json \<Rightarrow> string option \<Rightarrow> string option
     \<Rightarrow> (exn + document) \<times> collection" where
  "update_config e c cid new_settings who cn =
     (case find_one_desc (raises (fault e) 0) (has_id cid) c of
        Inl x \<Rightarrow> (Inl (reraise_handler ''update'' x), c)
      | Inr None \<Rightarrow>
          (Inl (reraise_handler ''update''
                 (ValueError (''Configuration with config_id '' @ quoted cid @ '' not found''))), c)
      | Inr (Some latest_config) \<Rightarrow>
          let new_version = version latest_config + 1;
              new_document =
                \<lparr>oid = 0, config_id = cid, version = new_version,
                 app_name = app_name latest_config,
                 environment = environment latest_config,
                 settings = new_settings,
                 created_at = created_at latest_config,
                 updated_at = now e,
                 updated_by = who,
                 change_notes = py_or cn ''Configuration updated''\<rparr>;
              c1 = interfere (others e 0) c
          in (case insert_one (raises (fault e) 1) c1 new_document of
                Inl x \<Rightarrow> (Inl (reraise_handler ''update'' x), c1)
              | Inr (c2, i) \<Rightarrow> (Inr (new_document\<lparr>oid := i\<rparr>), c2)))"

subsection \<open>rollback_config\<close>

definition rollback_config ::
  "env \<Rightarrow> collection \<Rightarrow> string \<Rightarrow> int \<Rightarrow> string option \<Rightarrow> string option
     \<Rightarrow> (exn + document) \<times> collection" where
  "rollback_config e c cid target_version who cn =
     (case find_one (raises (fault e) 0) (has_key cid target_version) c of
        Inl x \<Rightarrow> (Inl (reraise_handler ''rollback'' x), c)
      | Inr None \<Rightarrow>
          (Inl (reraise_handler ''rollback''
                 (ValueError (''Version '' @ str_int target_version
                              @ '' not found for config_id '' @ quoted cid))), c)
      | Inr (Some target_config) \<Rightarrow>
          let c1 = interfere (others e 0) c in
          (case get_latest_config (raises (fault e) 1) c1 cid of
             Inl x \<Rightarrow> (Inl (reraise_handler ''rollback'' x), c1)
           | Inr None \<Rightarrow>
               (Inl (reraise_handler ''rollback''
                      (ValueError (''Configuration '' @ quoted cid @ '' not found''))), c1)
           | Inr (Some latest_config) \<Rightarrow>
               let new_version = version latest_config + 1;
                   new_document =
                     \<lparr>oid = 0, config_id = cid, version = new_version,
                      app_name = app_name target_config,
                      environment = environment target_config,
                      settings = settings target_config,
                      created_at = created_at target_config,
                      updated_at = now e,
                      updated_by = who,
                      change_notes =
                        py_or cn (''Rolled back to version '' @ str_int target_version)\<rparr>;
                   c2 = interfere (others e 1) c1
               in (case insert_one (raises (fault e) 2) c2 new_document of
                     Inl x \<Rightarrow> (Inl (reraise_handler ''rollback'' x), c2)
                   | Inr (c3, i) \<Rightarrow> (Inr (new_document\<lparr>oid := i\<rparr>), c3))))"

subsection \<open>delete_config\<close>

definition delete_config :: "string option \<Rightarrow> collection \<Rightarrow> string \<Rightarrow> (exn + nat) \<times> collection" where
  "delete_config f c cid =
     (case delete_many f cid c of
        Inl x \<Rightarrow> (Inl (RuntimeError (''Failed to delete configuration: '' @ str_exn x)), c)
      | Inr (c', deleted_count) \<Rightarrow> (Inr deleted_count, c'))"

subsection \<open>query_configs\<close>

text \<open>
  \<^verbatim>\<open>if app_name: match_criteria["app_name"] = app_name\<close>: a filter that is
  \<^verbatim>\<open>None\<close> or empty puts no criterion into the \<^verbatim>\<open>$match\<close> stage.
\<close>

definition criterion :: "string option \<Rightarrow> string option" where
  "criterion x = (if truthy x then x else None)"

definition match_stage :: "string option \<Rightarrow> string option \<Rightarrow> document \<Rightarrow> bool" where
  "match_stage app environ d =
     ((case criterion app of None \<Rightarrow> True | Some a \<Rightarrow> app_name d = a) \<and>
      (case criterion environ of None \<Rightarrow> True | Some v \<Rightarrow> environment d = v))"

text \<open>\<^verbatim>\<open>{"$sort": {"config_id": 1, "version": -1}}\<close>.\<close>

definition sort_stage :: "document list \<Rightarrow> document list" where
  "sort_stage ds = sort_key (\<lambda>d. (config_id d, - version d)) ds"

text \<open>
  \<^verbatim>\<open>$group\<close> by \<^verbatim>\<open>config_id\<close> with \<^verbatim>\<open>{"$first": "$$ROOT"}\<close>, then
  \<^verbatim>\<open>$replaceRoot\<close>: of each \<^verbatim>\<open>config_id\<close> the first document met. The order in
  which the store emits the groups is not fixed; the last stage sorts them.
\<close>

fun group_first :: "document list \<Rightarrow> document list" where
  "group_first [] = []"
| "group_first (d # ds) = d # filter (\<lambda>e. config_id e \<noteq> config_id d) (group_first ds)"

definition aggregate :: "string option \<Rightarrow> string option \<Rightarrow> string option \<Rightarrow> collection \<Rightarrow> exn + document list" where
  "aggregate f app environ c =
     (case f of Some m \<Rightarrow> Inl (PyMongoError m)
      | None \<Rightarrow>
          Inr (sort_key config_id (group_first (sort_stage (filter (match_stage app environ) (docs c))))))"

definition query_configs :: "string option \<Rightarrow> collection \<Rightarrow> string option \<Rightarrow> string option \<Rightarrow> exn + document list" where
  "query_configs f c app environ =
     (case aggregate f app environ c of
        Inl x \<Rightarrow> Inl (RuntimeError (''Failed to query configurations: '' @ str_exn x))
      | Inr documents \<Rightarrow> Inr documents)"

section \<open>Sequences of operations\<close>

datatype call =
    Create config_data "string option" "string option"
  | Update string json "string option" "string option"
  | Rollback string int "string option" "string option"

fun apply_call :: "env \<Rightarrow> collection \<Rightarrow> call \<Rightarrow> (exn + document) \<times> collection" where
  "apply_call e c (Create cd who cn) = create_config e c cd who cn"
| "apply_call e c (Update cid new_settings who cn) = update_config e c cid new_settings who cn"
| "apply_call e c (Rollback cid target_version who cn) =
     rollback_config e c cid target_version who cn"

text \<open>The store after a list of calls, and what each call returned or raised.\<close>

fun run :: "collection \<Rightarrow> (env \<times> call) list \<Rightarrow> collection" where
  "run c [] = c"
| "run c ((e, k) # ks) = run (snd (apply_call e c k)) ks"

fun outcomes :: "collection \<Rightarrow> (env \<times> call) list \<Rightarrow> (exn + document) list" where
  "outcomes c [] = []"
| "outcomes c ((e, k) # ks) =
     fst (apply_call e c k) # outcomes (snd (apply_call e c k)) ks"

text \<open>
  A call that runs alone: nothing is inserted by anyone else between its store
  calls. A sequence of such calls, each with its clock reading and its fault.
\<close>

definition alone :: "string \<Rightarrow> fault \<Rightarrow> env" where
  "alone t f = \<lparr>now = t, fault = f, others = (\<lambda>k. [])\<rparr>"

fun sequential :: "((string \<times> fault) \<times> call) list \<Rightarrow> (env \<times> call) list" where
  "sequential [] = []"
| "sequential (((t, f), k) # ks) = (alone t f, k) # sequential ks"

text \<open>The stored version numbers of a \<^verbatim>\<open>config_id\<close>, in insertion order.\<close>

definition versions_of :: "string \<Rightarrow> collection \<Rightarrow> int list" where
  "versions_of cid c = map version (filter (has_id cid) (docs c))"

text \<open>The number of calls that returned a document of \<^verbatim>\<open>config_id\<close> \<open>cid\<close>.\<close>

fun is_write :: "string \<Rightarrow> exn + document \<Rightarrow> bool" where
  "is_write cid (Inl x) = False"
| "is_write cid (Inr d) = (config_id d = cid)"

definition writes :: "string \<Rightarrow> (exn + document) list \<Rightarrow> nat" where
  "writes cid rs = length (filter (is_write cid) rs)"

section \<open>Webhook delivery (webhooks.py)\<close>

text \<open>
  A subscriber. The event's payload and its HMAC signature do not influence the
  retry loop or the counters and are left out.
\<close>

record webhook_config =
  url :: string
  events :: "string list"
  secret :: "string option"
  enabled :: bool
  timeout :: int
  retry_attempts :: int
  retry_delay :: int

text \<open>
  What one \<^verbatim>\<open>requests.post\<close> did: a response with its status code and body, or an
  exception (connection refused, timeout) with its message.
\<close>

datatype post_outcome = Response int string | Raised string

record dispatch_result =
  status_code :: "int option"
  response_text :: string
  success :: bool

definition dispatch_webhook :: "webhook_config \<Rightarrow> post_outcome \<Rightarrow> dispatch_result" where
  "dispatch_webhook w p =
     (case p of
        Response code body \<Rightarrow>
          \<lparr>status_code = Some code, response_text = body, success = (200 \<le> code \<and> code < 300)\<rparr>
      | Raised m \<Rightarrow> \<lparr>status_code = None, response_text = m, success = False\<rparr>)"

text \<open>
  The body of \<^verbatim>\<open>dispatch_with_retry\<close>, one attempt: it returns the result or raises
  \<^verbatim>\<open>requests.ConnectionError\<close>.
\<close>

datatype attempt = Returned dispatch_result | ConnectionError string

definition attempt_once :: "webhook_config \<Rightarrow> post_outcome \<Rightarrow> attempt" where
  "attempt_once w p =
     (let result = dispatch_webhook w p in
      if \<not> success result \<and> (case status_code result of None \<Rightarrow> True | Some code \<Rightarrow> 500 \<le> code)
      then ConnectionError (''Webhook delivery failed: '' @ response_text result)
      else Returned result)"

text \<open>
  The decorator \<^verbatim>\<open>@retry(stop=stop_after_attempt(3), wait=wait_exponential(...),
  retry=retry_if_exception_type(...))\<close>: attempt \<open>n\<close> (from 1) makes the \<open>n\<close>-th POST
  of the delivery; a \<^verbatim>\<open>ConnectionError\<close> is retried after a wait, unless this
  was attempt 3, where tenacity raises \<^verbatim>\<open>RetryError\<close> (the decorator does not ask
  for \<^verbatim>\<open>reraise\<close>). The result comes with the number of attempts made.
\<close>

definition stop_after_attempt :: nat where
  "stop_after_attempt = 3"

datatype retry_error = RetryError string

function retrying :: "webhook_config \<Rightarrow> (nat \<Rightarrow> post_outcome) \<Rightarrow> nat \<Rightarrow> (retry_error + dispatch_result) \<times> nat" where
  "retrying w posts n =
     (case attempt_once w (posts (n - 1)) of
        Returned result \<Rightarrow> (Inr result, n)
      | ConnectionError m \<Rightarrow>
          if stop_after_attempt \<le> n then (Inl (RetryError m), n)
          else retrying w posts (Suc n))"
  by pat_completeness auto
termination
  by (relation "measure (\<lambda>(w, posts, n). stop_after_attempt - n)") auto

declare retrying.simps [simp del]

definition dispatch_with_retry :: "webhook_config \<Rightarrow> (nat \<Rightarrow> post_outcome) \<Rightarrow> (retry_error + dispatch_result) \<times> nat" where
  "dispatch_with_retry w posts = retrying w posts 1"

text \<open>The per-subscriber counters of \<^verbatim>\<open>WebhookManager.stats\<close>.\<close>

record counters =
  successes :: int
  failures :: int

type_synonym stats = "string \<rightharpoonup> counters"

definition setdefault :: "stats \<Rightarrow> string \<Rightarrow> stats" where
  "setdefault st u = (case st u of None \<Rightarrow> st(u \<mapsto> \<lparr>successes = 0, failures = 0\<rparr>) | Some x \<Rightarrow> st)"

definition counters_of :: "stats \<Rightarrow> string \<Rightarrow> counters" where
  "counters_of st u = (case st u of None \<Rightarrow> \<lparr>successes = 0, failures = 0\<rparr> | Some x \<Rightarrow> x)"

text \<open>
  The thread started by \<^verbatim>\<open>dispatch_webhook_async\<close>, run to its end: the stats of
  the manager it was given (\<open>None\<close>: no manager) afterwards. An exception of
  \<^verbatim>\<open>dispatch_with_retry\<close> ends the thread before the counters are reached.
\<close>

definition dispatch_webhook_async :: "webhook_config \<Rightarrow> (nat \<Rightarrow> post_outcome) \<Rightarrow> stats option \<Rightarrow> stats option" where
  "dispatch_webhook_async w posts manager =
     (case fst (dispatch_with_retry w posts) of
        Inl x \<Rightarrow> manager
      | Inr result \<Rightarrow>
          (case manager of
             None \<Rightarrow> None
           | Some st \<Rightarrow>
               let st1 = setdefault st (url w); n = counters_of st1 (url w) in
               if success result
               then Some (st1(url w \<mapsto> n\<lparr>successes := successes n + 1\<rparr>))
               else Some (st1(url w \<mapsto> n\<lparr>failures := failures n + 1\<rparr>))))"

section \<open>Predicates used by the properties\<close>

text \<open>The stored versions of every \<^verbatim>\<open>config_id\<close> are \<open>1, 2, \<dots>\<close> in insertion order.\<close>

definition gapless :: "collection \<Rightarrow> bool" where
  "gapless c = (\<forall>cid. versions_of cid c = [1 .. int (length (versions_of cid c))])"

definition same_identity :: "document \<Rightarrow> document \<Rightarrow> bool" where
  "same_identity d s =
     (config_id d = config_id s \<and> app_name d = app_name s \<and>
      environment d = environment s \<and> created_at d = created_at s)"

text \<open>
  What a successful call appends: version 1 of a \<^verbatim>\<open>config_id\<close> without stored
  versions, or the successor of the latest version, with the identity fields of a
  stored version of the same \<^verbatim>\<open>config_id\<close>.
\<close>

definition grows :: "collection \<Rightarrow> document \<Rightarrow> bool" where
  "grows c d =
     ((version d = 1 \<and> versions_of (config_id d) c = []) \<or>
      (\<exists>l s. max_version_doc (filter (has_id (config_id d)) (docs c)) = Some l
             \<and> version d = version l + 1 \<and> s \<in> set (docs c) \<and> same_identity d s))"

text \<open>Documents of one \<^verbatim>\<open>config_id\<close> agree on app_name, environment and created_at.\<close>

definition uniform :: "collection \<Rightarrow> bool" where
  "uniform c = (\<forall>d \<in> set (docs c). \<forall>e \<in> set (docs c). config_id d = config_id e \<longrightarrow> same_identity d e)"

text \<open>
  What one POST means for the retry policy of the specification: a failure to connect,
  a timeout or no response (an exception of the transport) and a 5xx response are
  transient, a 2xx response is a delivery.
\<close>

fun transient :: "post_outcome \<Rightarrow> bool" where
  "transient (Raised m) = True"
| "transient (Response code body) = (500 \<le> code \<and> code < 600)"

fun delivered :: "post_outcome \<Rightarrow> bool" where
  "delivered (Raised m) = False"
| "delivered (Response code body) = (200 \<le> code \<and> code < 300)"

section \<open>Sample data\<close>

definition cfg1 :: config_data where
  "cfg1 = \<lparr>cd_config_id = Some ''cfg1'', cd_app_name = Some ''X'',
           cd_environment = Some ''dev'', cd_settings = Some (JObj [(''a'', JNum 1)])\<rparr>"

text \<open>The scenario of the specification: create, update, roll back to version 1.\<close>

definition scenario :: "((string \<times> fault) \<times> call) list" where
  "scenario =
     [((''t1'', None), Create cfg1 None None),
      ((''t2'', None), Update ''cfg1'' (JObj [(''a'', JNum 2)]) (Some ''bob'') None),
      ((''t3'', None), Rollback ''cfg1'' 1 (Some ''bob'') None)]"

definition v1 :: document where
  "v1 = \<lparr>oid = 0, config_id = ''cfg1'', version = 1, app_name = ''X'', environment = ''dev'',
          settings = JObj [(''a'', JNum 1)], created_at = ''t1'', updated_at = ''t1'',
          updated_by = None, change_notes = ''Initial configuration creation''\<rparr>"

definition v2 :: document where
  "v2 = \<lparr>oid = 1, config_id = ''cfg1'', version = 2, app_name = ''X'', environment = ''dev'',
          settings = JObj [(''a'', JNum 2)], created_at = ''t1'', updated_at = ''t2'',
          updated_by = Some ''bob'', change_notes = ''Configuration updated''\<rparr>"

definition v3 :: document where
  "v3 = \<lparr>oid = 2, config_id = ''cfg1'', version = 3, app_name = ''X'', environment = ''dev'',
          settings = JObj [(''a'', JNum 1)], created_at = ''t1'', updated_at = ''t3'',
          updated_by = Some ''bob'', change_notes = ''Rolled back to version 1''\<rparr>"

definition hook :: webhook_config where
  "hook = \<lparr>url = ''http://subscriber'', events = [''config.created''], secret = None,
           enabled = True, timeout = 10, retry_attempts = 5, retry_delay = 1\<rparr>"

text \<open>A subscriber that answers 500 twice and then 200.\<close>

definition flaky :: "nat \<Rightarrow> post_outcome" where
  "flaky k = (if k < 2 then Response 500 ''boom'' else Response 200 ''ok'')"

text \<open>The scenario's collection with one more configuration, of another application.\<close>

definition other :: document where
  "other = \<lparr>oid = 3, config_id = ''abc'', version = 1, app_name = ''Y'', environment = ''dev'',
             settings = JObj [], created_at = ''t4'', updated_at = ''t4'',
             updated_by = None, change_notes = ''Initial configuration creation''\<rparr>"

definition population :: collection where
  "population = \<lparr>docs = [v1, v2, v3, other], next_oid = 4\<rparr>"

section \<open>Properties of the version store\<close>

subsection \<open>The store's operations\<close>

lemma find_mem: "find p xs = Some x \<Longrightarrow> x \<in> set xs \<and> p x"
  by (induction xs) (auto split: if_splits)

lemma find_append_Some: "find p xs = Some x \<Longrightarrow> find p (xs @ ys) = Some x"
  by (induction xs) (auto split: if_splits)

lemma max_version_doc_mem: "max_version_doc ds = Some l \<Longrightarrow> l \<in> set ds"
  by (induction ds arbitrary: l) (auto split: option.splits if_splits)

lemma max_version_doc_None: "max_version_doc ds = None \<longleftrightarrow> ds = []"
  by (cases ds) (auto split: option.splits)

lemma max_version_doc_ge:
  "max_version_doc ds = Some l \<Longrightarrow> d \<in> set ds \<Longrightarrow> version d \<le> version l"
proof (induction ds arbitrary: l)
  case Nil
  then show ?case by simp
next
  case (Cons a ds)
  show ?case
  proof (cases "max_version_doc ds")
    case None
    then have "ds = []" by (simp add: max_version_doc_None)
    with Cons.prems show ?thesis by simp
  next
    case (Some e)
    with Cons.prems Cons.IH [OF Some] show ?thesis
      by (auto split: if_splits)
  qed
qed

lemma max_version_doc_Max:
  assumes "max_version_doc ds = Some l"
  shows "version l = Max (set (map version ds))"
proof -
  have "Max (set (map version ds)) = version l"
  proof (rule Max_eqI)
    show "finite (set (map version ds))" by simp
    show "version l \<in> set (map version ds)" using max_version_doc_mem [OF assms] by simp
    fix y assume "y \<in> set (map version ds)"
    then show "y \<le> version l" using max_version_doc_ge [OF assms] by auto
  qed
  then show ?thesis by simp
qed

lemma insert_one_Inr:
  "insert_one f c d = Inr (c', i) \<Longrightarrow>
     f = None \<and> i = next_oid c \<and> docs c' = docs c @ [d\<lparr>oid := i\<rparr>]
     \<and> next_oid c' = Suc (next_oid c)
     \<and> find (has_key (config_id d) (version d)) (docs c) = None"
  by (auto simp: insert_one_def split: option.splits if_splits)

subsection \<open>What one call does when it runs alone\<close>

lemma create_alone:
  assumes "create_config (alone t f) c cd who cn = (r, c')"
  shows "(\<exists>x. r = Inl x \<and> c' = c) \<or>
         (\<exists>d. r = Inr d \<and> docs c' = docs c @ [d] \<and> version d = 1
              \<and> versions_of (config_id d) c = [])"
  using assms
  by (auto simp: create_config_def alone_def find_one_def versions_of_def Let_def
                 find_None_iff filter_empty_conv
           split: sum.splits option.splits prod.splits dest!: insert_one_Inr)

lemma update_alone:
  assumes "update_config (alone t f) c cid s who cn = (r, c')"
  shows "(\<exists>x. r = Inl x \<and> c' = c) \<or>
         (\<exists>d l. r = Inr d \<and> docs c' = docs c @ [d] \<and> config_id d = cid
            \<and> max_version_doc (filter (has_id cid) (docs c)) = Some l
            \<and> version d = version l + 1 \<and> app_name d = app_name l
            \<and> environment d = environment l \<and> created_at d = created_at l)"
  using assms
  by (auto simp: update_config_def alone_def find_one_desc_def Let_def
           split: sum.splits option.splits prod.splits dest!: insert_one_Inr)

lemma rollback_alone:
  assumes "rollback_config (alone t f) c cid k who cn = (r, c')"
  shows "(\<exists>x. r = Inl x \<and> c' = c) \<or>
         (\<exists>d l tg. r = Inr d \<and> docs c' = docs c @ [d] \<and> config_id d = cid
            \<and> max_version_doc (filter (has_id cid) (docs c)) = Some l
            \<and> find (has_key cid k) (docs c) = Some tg
            \<and> version d = version l + 1 \<and> app_name d = app_name tg
            \<and> environment d = environment tg \<and> created_at d = created_at tg)"
  using assms
  by (auto simp: rollback_config_def alone_def find_one_def find_one_desc_def
                 get_latest_config_def Let_def
           split: sum.splits option.splits prod.splits dest!: insert_one_Inr)

lemma apply_call_alone:
  assumes "apply_call (alone t f) c k = (r, c')"
  shows "(\<exists>x. r = Inl x \<and> c' = c) \<or> (\<exists>d. r = Inr d \<and> docs c' = docs c @ [d] \<and> grows c d)"
proof (cases k)
  case (Create cd ub cn)
  with assms have "create_config (alone t f) c cd ub cn = (r, c')" by simp
  from create_alone [OF this] show ?thesis by (auto simp: grows_def)
next
  case (Update cid s ub cn)
  with assms have "update_config (alone t f) c cid s ub cn = (r, c')" by simp
  from update_alone [OF this] show ?thesis
  proof
    assume "\<exists>x. r = Inl x \<and> c' = c"
    then show ?thesis by blast
  next
    assume "\<exists>d l. r = Inr d \<and> docs c' = docs c @ [d] \<and> config_id d = cid
            \<and> max_version_doc (filter (has_id cid) (docs c)) = Some l
            \<and> version d = version l + 1 \<and> app_name d = app_name l
            \<and> environment d = environment l \<and> created_at d = created_at l"
    then obtain d l where h: "r = Inr d" "docs c' = docs c @ [d]" "config_id d = cid"
      "max_version_doc (filter (has_id cid) (docs c)) = Some l" "version d = version l + 1"
      "app_name d = app_name l" "environment d = environment l" "created_at d = created_at l"
      by blast
    from max_version_doc_mem [OF h(4)] have "l \<in> set (docs c)" "config_id l = cid"
      by (auto simp: has_id_def)
    with h have "grows c d" by (auto simp: grows_def same_identity_def)
    with h show ?thesis by blast
  qed
next
  case (Rollback cid k ub cn)
  with assms have "rollback_config (alone t f) c cid k ub cn = (r, c')" by simp
  from rollback_alone [OF this] show ?thesis
  proof
    assume "\<exists>x. r = Inl x \<and> c' = c"
    then show ?thesis by blast
  next
    assume "\<exists>d l tg. r = Inr d \<and> docs c' = docs c @ [d] \<and> config_id d = cid
            \<and> max_version_doc (filter (has_id cid) (docs c)) = Some l
            \<and> find (has_key cid k) (docs c) = Some tg
            \<and> version d = version l + 1 \<and> app_name d = app_name tg
            \<and> environment d = environment tg \<and> created_at d = created_at tg"
    then obtain d l tg where h: "r = Inr d" "docs c' = docs c @ [d]" "config_id d = cid"
      "max_version_doc (filter (has_id cid) (docs c)) = Some l"
      "find (has_key cid k) (docs c) = Some tg" "version d = version l + 1"
      "app_name d = app_name tg" "environment d = environment tg"
      "created_at d = created_at tg"
      by blast
    from find_mem [OF h(5)] have "tg \<in> set (docs c)" "config_id tg = cid"
      by (auto simp: has_key_def)
    with h have "grows c d" by (auto simp: grows_def same_identity_def)
    with h show ?thesis by blast
  qed
qed

subsection \<open>Version numbers\<close>

lemma grows_next:
  assumes "gapless c" "grows c d"
  shows "version d = int (length (versions_of (config_id d) c)) + 1"
proof -
  let ?vs = "versions_of (config_id d) c"
  from assms(2) consider "version d = 1" "?vs = []"
    | l where "max_version_doc (filter (has_id (config_id d)) (docs c)) = Some l"
        "version d = version l + 1"
    by (auto simp: grows_def)
  then show ?thesis
  proof cases
    case 1
    then show ?thesis by simp
  next
    case 2
    let ?ds = "filter (has_id (config_id d)) (docs c)"
    have vs: "?vs = [1 .. int (length ?vs)]" using assms(1) by (simp add: gapless_def)
    have lin: "l \<in> set ?ds" by (rule max_version_doc_mem [OF 2(1)])
    then have "version l \<in> set ?vs" by (auto simp: versions_of_def)
    then have "version l \<in> set [1 .. int (length ?vs)]" using vs by simp
    then have up: "1 \<le> version l" "version l \<le> int (length ?vs)" by auto
    then have "int (length ?vs) \<in> set [1 .. int (length ?vs)]" by auto
    then have "int (length ?vs) \<in> set ?vs" using vs by simp
    then obtain e where "e \<in> set ?ds" "version e = int (length ?vs)"
      by (auto simp: versions_of_def)
    with max_version_doc_ge [OF 2(1)] have "int (length ?vs) \<le> version l" by fastforce
    with up 2(2) show ?thesis by simp
  qed
qed

lemma versions_of_append:
  "docs c' = docs c @ [d] \<Longrightarrow>
     versions_of cid c' =
       (if config_id d = cid then versions_of cid c @ [version d] else versions_of cid c)"
  by (simp add: versions_of_def has_id_def)

lemma gapless_grows:
  assumes "gapless c" "grows c d" "docs c' = docs c @ [d]"
  shows "gapless c'"
  unfolding gapless_def
proof
  fix cid
  show "versions_of cid c' = [1 .. int (length (versions_of cid c'))]"
  proof (cases "config_id d = cid")
    case False
    with assms(1,3) show ?thesis by (simp add: versions_of_append gapless_def)
  next
    case True
    let ?n = "int (length (versions_of cid c))"
    have v: "version d = ?n + 1" using grows_next [OF assms(1,2)] True by simp
    have old: "versions_of cid c = [1 .. ?n]" using assms(1) by (simp add: gapless_def)
    have new: "versions_of cid c' = versions_of cid c @ [?n + 1]"
      using v True assms(3) by (simp add: versions_of_append)
    then have len: "int (length (versions_of cid c')) = ?n + 1" by simp
    have "[1 .. ?n + 1] = [1 .. ?n] @ [?n + 1]" by (simp add: upto_rec2)
    with old new have "versions_of cid c' = [1 .. ?n + 1]" by simp
    with len show ?thesis by simp
  qed
qed

lemma gapless_empty: "gapless empty_collection"
  by (simp add: gapless_def versions_of_def empty_collection_def)

lemma run_sequential_gapless:
  "gapless c \<Longrightarrow>
     gapless (run c (sequential ks)) \<and>
     length (versions_of cid (run c (sequential ks))) =
       length (versions_of cid c) + writes cid (outcomes c (sequential ks))"
proof (induction ks arbitrary: c)
  case Nil
  then show ?case by (simp add: writes_def)
next
  case (Cons a ks)
  obtain t f k where a: "a = ((t, f), k)" by (metis surj_pair)
  obtain r c' where step: "apply_call (alone t f) c k = (r, c')" by (metis surj_pair)
  from apply_call_alone [OF step] consider x where "r = Inl x" "c' = c"
    | d where "r = Inr d" "docs c' = docs c @ [d]" "grows c d" by blast
  then show ?case
  proof cases
    case 1
    with Cons.IH [OF Cons.prems] a step show ?thesis by (simp add: writes_def)
  next
    case 2
    have g: "gapless c'" by (rule gapless_grows [OF Cons.prems 2(3) 2(2)])
    from Cons.IH [OF g] a step 2 show ?thesis
      by (simp add: writes_def versions_of_append)
  qed
qed

lemma create_config_version:
  "fst (create_config e c cd who cn) = Inr d \<Longrightarrow> version d = 1"
  by (auto simp: create_config_def Let_def split: sum.splits option.splits prod.splits)

lemma update_config_version:
  assumes "fst (update_config e c cid s who cn) = Inr d"
  shows "versions_of cid c \<noteq> [] \<and> version d = Max (set (versions_of cid c)) + 1"
proof -
  from assms obtain l where l: "max_version_doc (filter (has_id cid) (docs c)) = Some l"
    and v: "version d = version l + 1"
    by (auto simp: update_config_def find_one_desc_def Let_def
             split: sum.splits option.splits prod.splits)
  from max_version_doc_mem [OF l] have "filter (has_id cid) (docs c) \<noteq> []"
    by (auto simp: filter_empty_conv)
  then have "versions_of cid c \<noteq> []"
    by (simp add: versions_of_def)
  with max_version_doc_Max [OF l] v show ?thesis by (simp add: versions_of_def)
qed

lemma scenario_store:
  "run empty_collection (sequential scenario) = \<lparr>docs = [v1, v2, v3], next_oid = 3\<rparr>"
  by code_simp

lemma scenario_outcomes:
  "outcomes empty_collection (sequential scenario) = [Inr v1, Inr v2, Inr v3]"
  by code_simp

lemma create_cfg1:
  "fst (create_config (alone ''t1'' None) empty_collection cfg1 None None) = Inr v1"
  by code_simp

lemma update_cfg1:
  "fst (update_config (alone ''t2'' None) \<lparr>docs = [v1], next_oid = 1\<rparr> ''cfg1''
         (JObj [(''a'', JNum 2)]) (Some ''bob'') None) = Inr v2"
  by code_simp

lemma writes_scenario: "writes ''cfg1'' (outcomes empty_collection (sequential scenario)) = 3"
  by code_simp

text \<open>
  C1. Starting from the empty collection, after any sequence of create, update and
  rollback calls the stored versions of every \<^verbatim>\<open>config_id\<close> are exactly
  \<open>1, \<dots>, N\<close>, without gap or repeat, where \<open>N\<close> is the number of calls that
  succeeded for that \<^verbatim>\<open>config_id\<close>. A successful \<^verbatim>\<open>create_config\<close> returns
  version 1, a successful \<^verbatim>\<open>update_config\<close> the greatest stored version of the
  \<^verbatim>\<open>config_id\<close> plus one.
\<close>

theorem version_sequence_gapless:
  "versions_of cid (run empty_collection (sequential ks)) =
     [1 .. int (writes cid (outcomes empty_collection (sequential ks)))]
   \<and> set (versions_of cid (run empty_collection (sequential ks))) =
       {1 .. int (writes cid (outcomes empty_collection (sequential ks)))}
   \<and> distinct (versions_of cid (run empty_collection (sequential ks)))
   \<and> (fst (create_config e c cd who cn) = Inr d \<longrightarrow> version d = 1)
   \<and> (fst (update_config e' c' cid' s who' cn') = Inr d' \<longrightarrow>
        versions_of cid' c' \<noteq> [] \<and> version d' = Max (set (versions_of cid' c')) + 1)"
proof -
  let ?c = "run empty_collection (sequential ks)"
  let ?n = "writes cid (outcomes empty_collection (sequential ks))"
  from run_sequential_gapless [OF gapless_empty, of ks cid]
  have g: "gapless ?c" and len: "length (versions_of cid ?c) = ?n"
    by (simp_all add: versions_of_def empty_collection_def)
  from g have "versions_of cid ?c = [1 .. int (length (versions_of cid ?c))]"
    unfolding gapless_def by blast
  with len have eq: "versions_of cid ?c = [1 .. int ?n]"
    by simp
  have "set (versions_of cid ?c) = {1 .. int ?n}" by (simp only: eq set_upto)
  moreover have "distinct (versions_of cid ?c)" by (simp only: eq distinct_upto)
  ultimately show ?thesis
    using eq create_config_version update_config_version by blast
qed

theorem version_sequence_gapless_witness:
  "versions_of ''cfg1'' (run empty_collection (sequential scenario)) = [1, 2, 3]
   \<and> fst (create_config (alone ''t1'' None) empty_collection cfg1 None None) = Inr v1
   \<and> version v1 = 1
   \<and> fst (update_config (alone ''t2'' None) \<lparr>docs = [v1], next_oid = 1\<rparr> ''cfg1''
         (JObj [(''a'', JNum 2)]) (Some ''bob'') None) = Inr v2
   \<and> version v2 = Max (set (versions_of ''cfg1'' \<lparr>docs = [v1], next_oid = 1\<rparr>)) + 1"
proof -
  have up: "[1 .. 3] = [1, 2, 3 :: int]" by code_simp
  from version_sequence_gapless
         [where cid = "''cfg1''" and ks = scenario
            and e = "alone ''t1'' None" and c = empty_collection and cd = cfg1
            and who = None and cn = None and d = v1
            and e' = "alone ''t2'' None" and c' = "\<lparr>docs = [v1], next_oid = 1\<rparr>"
            and cid' = "''cfg1''" and s = "JObj [(''a'', JNum 2)]"
            and who' = "Some ''bob''" and cn' = None and d' = v2]
  show ?thesis
    using create_cfg1 update_cfg1 up by (simp add: writes_scenario)
qed

subsection \<open>Identity fields\<close>

lemma same_identity_sym: "same_identity d e \<Longrightarrow> same_identity e d"
  by (simp add: same_identity_def)

lemma same_identity_trans: "same_identity d e \<Longrightarrow> same_identity e f \<Longrightarrow> same_identity d f"
  by (simp add: same_identity_def)

lemma uniform_grows:
  assumes u: "uniform c" and g: "grows c d" and app: "docs c' = docs c @ [d]"
  shows "uniform c'"
proof -
  have new: "same_identity d e" if e: "e \<in> set (docs c)" and id: "config_id d = config_id e" for e
  proof -
    from g consider "versions_of (config_id d) c = []"
      | s where "s \<in> set (docs c)" "same_identity d s"
      by (auto simp: grows_def)
    then show ?thesis
    proof cases
      case 1
      with e id show ?thesis
        by (auto simp: versions_of_def has_id_def filter_empty_conv)
    next
      case 2
      then have "config_id s = config_id e" using id by (simp add: same_identity_def)
      with u 2(1) e have "same_identity s e" by (auto simp: uniform_def)
      with 2(2) show ?thesis by (rule same_identity_trans)
    qed
  qed
  have self: "same_identity d d" by (simp add: same_identity_def)
  show ?thesis
    unfolding uniform_def
  proof (intro ballI impI)
    fix a b
    assume a: "a \<in> set (docs c')" and b: "b \<in> set (docs c')" and id: "config_id a = config_id b"
    from a app have a': "a \<in> set (docs c) \<or> a = d" by auto
    from b app have b': "b \<in> set (docs c) \<or> b = d" by auto
    from a' b' show "same_identity a b"
    proof (elim disjE)
      assume "a \<in> set (docs c)" "b \<in> set (docs c)"
      with u id show ?thesis by (auto simp: uniform_def)
    next
      assume "a \<in> set (docs c)" "b = d"
      with new [of a] id show ?thesis by (simp add: same_identity_sym)
    next
      assume "a = d" "b \<in> set (docs c)"
      with new [of b] id show ?thesis by simp
    next
      assume "a = d" "b = d"
      with self show ?thesis by simp
    qed
  qed
qed

lemma uniform_empty: "uniform empty_collection"
  by (simp add: uniform_def empty_collection_def)

lemma run_sequential_uniform:
  "gapless c \<Longrightarrow> uniform c \<Longrightarrow> uniform (run c (sequential ks))"
proof (induction ks arbitrary: c)
  case Nil
  then show ?case by simp
next
  case (Cons a ks)
  obtain t f k where a: "a = ((t, f), k)" by (metis surj_pair)
  obtain r c' where step: "apply_call (alone t f) c k = (r, c')" by (metis surj_pair)
  from apply_call_alone [OF step] consider x where "r = Inl x" "c' = c"
    | d where "r = Inr d" "docs c' = docs c @ [d]" "grows c d" by blast
  then show ?case
  proof cases
    case 1
    with Cons a step show ?thesis by simp
  next
    case 2
    have "gapless c'" by (rule gapless_grows [OF Cons.prems(1) 2(3) 2(2)])
    moreover have "uniform c'" by (rule uniform_grows [OF Cons.prems(2) 2(3) 2(2)])
    ultimately have "uniform (run c' (sequential ks))" by (rule Cons.IH)
    with a step show ?thesis by simp
  qed
qed

lemma gapless_has_version_1:
  assumes "gapless c" "d \<in> set (docs c)"
  shows "\<exists>a \<in> set (docs c). config_id a = config_id d \<and> version a = 1"
proof -
  let ?vs = "versions_of (config_id d) c"
  from assms(2) have "version d \<in> set ?vs" by (auto simp: versions_of_def has_id_def)
  then have "?vs \<noteq> []" by auto
  then have "1 \<le> int (length ?vs)" by (cases ?vs) auto
  then have "1 \<in> set [1 .. int (length ?vs)]" by simp
  with assms(1) have "1 \<in> set ?vs" by (simp add: gapless_def)
  then show ?thesis by (auto simp: versions_of_def has_id_def)
qed

lemma update_config_copies:
  assumes "fst (update_config e c cid s who cn) = Inr d"
  shows "\<exists>l. find_one_desc None (has_id cid) c = Inr (Some l) \<and> app_name d = app_name l
           \<and> environment d = environment l \<and> created_at d = created_at l"
  using assms
  by (auto simp: update_config_def find_one_desc_def Let_def
           split: sum.splits option.splits prod.splits)

lemma rollback_config_copies:
  assumes "fst (rollback_config e c cid k who cn) = Inr d"
  shows "\<exists>tg. find_one None (has_key cid k) c = Inr (Some tg) \<and> app_name d = app_name tg
           \<and> environment d = environment tg \<and> created_at d = created_at tg"
  using assms
  by (auto simp: rollback_config_def find_one_def Let_def
           split: sum.splits option.splits prod.splits)

text \<open>
  C4. Starting from the empty collection, after any sequence of create, update and
  rollback calls all stored versions of one \<^verbatim>\<open>config_id\<close> have the same app_name,
  environment and created_at, which are those of its version 1. A successful
  \<^verbatim>\<open>update_config\<close> copies the three fields from the latest version it read, a
  successful \<^verbatim>\<open>rollback_config\<close> from the target version.
\<close>

theorem identity_fields_invariant:
  "(\<forall>d \<in> set (docs (run empty_collection (sequential ks))).
     \<forall>e \<in> set (docs (run empty_collection (sequential ks))).
       config_id d = config_id e \<longrightarrow>
         app_name d = app_name e \<and> environment d = environment e \<and> created_at d = created_at e)
   \<and> (\<forall>d \<in> set (docs (run empty_collection (sequential ks))).
        \<exists>a \<in> set (docs (run empty_collection (sequential ks))).
          config_id a = config_id d \<and> version a = 1 \<and> app_name d = app_name a
          \<and> environment d = environment a \<and> created_at d = created_at a)
   \<and> (fst (update_config e c cid s who cn) = Inr u \<longrightarrow>
        (\<exists>l. find_one_desc None (has_id cid) c = Inr (Some l) \<and> app_name u = app_name l
           \<and> environment u = environment l \<and> created_at u = created_at l))
   \<and> (fst (rollback_config e' c' cid' k who' cn') = Inr r \<longrightarrow>
        (\<exists>tg. find_one None (has_key cid' k) c' = Inr (Some tg) \<and> app_name r = app_name tg
           \<and> environment r = environment tg \<and> created_at r = created_at tg))"
proof (intro conjI)
  let ?c = "run empty_collection (sequential ks)"
  from run_sequential_gapless [OF gapless_empty, of ks "[]"] have g: "gapless ?c" by simp
  have u: "uniform ?c" by (rule run_sequential_uniform [OF gapless_empty uniform_empty])
  have one: "app_name d = app_name e \<and> environment d = environment e \<and> created_at d = created_at e"
    if "d \<in> set (docs ?c)" "e \<in> set (docs ?c)" "config_id d = config_id e" for d e
  proof -
    from u that have "same_identity d e" unfolding uniform_def by blast
    then show ?thesis by (simp add: same_identity_def)
  qed
  show "\<forall>d \<in> set (docs ?c). \<forall>e \<in> set (docs ?c). config_id d = config_id e \<longrightarrow>
         app_name d = app_name e \<and> environment d = environment e \<and> created_at d = created_at e"
    using one by blast
  show "\<forall>d \<in> set (docs ?c). \<exists>a \<in> set (docs ?c).
          config_id a = config_id d \<and> version a = 1 \<and> app_name d = app_name a
          \<and> environment d = environment a \<and> created_at d = created_at a"
  proof
    fix d assume d: "d \<in> set (docs ?c)"
    from gapless_has_version_1 [OF g d] obtain a where a: "a \<in> set (docs ?c)"
      "config_id a = config_id d" "version a = 1" by blast
    from one [OF d a(1)] a(2) have "app_name d = app_name a \<and> environment d = environment a
        \<and> created_at d = created_at a" by simp
    with a show "\<exists>a \<in> set (docs ?c). config_id a = config_id d \<and> version a = 1
        \<and> app_name d = app_name a \<and> environment d = environment a \<and> created_at d = created_at a"
      by blast
  qed
  show "fst (update_config e c cid s who cn) = Inr u \<longrightarrow>
        (\<exists>l. find_one_desc None (has_id cid) c = Inr (Some l) \<and> app_name u = app_name l
           \<and> environment u = environment l \<and> created_at u = created_at l)"
    by (rule impI) (rule update_config_copies)
  show "fst (rollback_config e' c' cid' k who' cn') = Inr r \<longrightarrow>
        (\<exists>tg. find_one None (has_key cid' k) c' = Inr (Some tg) \<and> app_name r = app_name tg
           \<and> environment r = environment tg \<and> created_at r = created_at tg)"
    by (rule impI) (rule rollback_config_copies)
qed

lemma rollback_cfg1:
  "rollback_config (alone ''t3'' None) \<lparr>docs = [v1, v2], next_oid = 2\<rparr> ''cfg1'' 1
         (Some ''bob'') None = (Inr v3, \<lparr>docs = [v1, v2, v3], next_oid = 3\<rparr>)"
  by code_simp

theorem identity_fields_invariant_witness:
  "v3 \<in> set (docs (run empty_collection (sequential scenario)))
   \<and> v1 \<in> set (docs (run empty_collection (sequential scenario)))
   \<and> config_id v3 = config_id v1
   \<and> app_name v3 = app_name v1 \<and> environment v3 = environment v1
   \<and> created_at v3 = created_at v1 \<and> version v1 = 1
   \<and> fst (update_config (alone ''t2'' None) \<lparr>docs = [v1], next_oid = 1\<rparr> ''cfg1''
         (JObj [(''a'', JNum 2)]) (Some ''bob'') None) = Inr v2
   \<and> created_at v2 = created_at v1
   \<and> fst (rollback_config (alone ''t3'' None) \<lparr>docs = [v1, v2], next_oid = 2\<rparr> ''cfg1'' 1
         (Some ''bob'') None) = Inr v3"
  using identity_fields_invariant
         [where ks = scenario
            and e = "alone ''t2'' None" and c = "\<lparr>docs = [v1], next_oid = 1\<rparr>"
            and cid = "''cfg1''" and s = "JObj [(''a'', JNum 2)]"
            and who = "Some ''bob''" and cn = None and u = v2
            and e' = "alone ''t3'' None" and c' = "\<lparr>docs = [v1, v2], next_oid = 2\<rparr>"
            and cid' = "''cfg1''" and k = 1 and who' = "Some ''bob''" and cn' = None and r = v3]
    update_cfg1 rollback_cfg1
  by (simp add: scenario_store v1_def v2_def v3_def)

subsection \<open>Rollback\<close>

lemma no_successor_of_latest:
  assumes "max_version_doc (filter (has_id cid) ds) = Some l"
  shows "find (has_key cid (version l + 1)) ds = None"
proof -
  have "\<not> has_key cid (version l + 1) d" if "d \<in> set ds" for d
  proof
    assume k: "has_key cid (version l + 1) d"
    with that have "d \<in> set (filter (has_id cid) ds)" by (simp add: has_key_def has_id_def)
    from max_version_doc_ge [OF assms this] k show False by (simp add: has_key_def)
  qed
  then show ?thesis by (auto simp: find_None_iff)
qed

lemma rollback_config_found:
  assumes tg: "get_config_version None c cid k = Some tg"
  shows "\<exists>d. rollback_config (alone t None) c cid k who cn =
              (Inr d, \<lparr>docs = docs c @ [d], next_oid = Suc (next_oid c)\<rparr>)
           \<and> config_id d = cid \<and> version d = Max (set (versions_of cid c)) + 1
           \<and> settings d = settings tg \<and> updated_at d = t
           \<and> change_notes d = py_or cn (''Rolled back to version '' @ str_int k)"
proof -
  from tg have f: "find (has_key cid k) (docs c) = Some tg"
    by (simp add: get_config_version_def find_one_def)
  from find_mem [OF f] have "tg \<in> set (filter (has_id cid) (docs c))"
    by (simp add: has_key_def has_id_def)
  then have "filter (has_id cid) (docs c) \<noteq> []" by (auto simp: filter_empty_conv)
  then obtain l where l: "max_version_doc (filter (has_id cid) (docs c)) = Some l"
    by (cases "max_version_doc (filter (has_id cid) (docs c))") (auto simp: max_version_doc_None)
  have fresh: "find (has_key cid (version l + 1)) (docs c) = None"
    by (rule no_successor_of_latest [OF l])
  have mx: "version l = Max (set (versions_of cid c))"
    using max_version_doc_Max [OF l] by (simp add: versions_of_def)
  show ?thesis
    using f l fresh mx
    by (simp add: rollback_config_def alone_def find_one_def find_one_desc_def
                  get_latest_config_def insert_one_def raises_def Let_def)
qed

lemma rollback_config_not_found:
  assumes "get_config_version None c cid k = None" "fault e = None"
  shows "rollback_config e c cid k who cn =
           (Inl (ValueError (''Version '' @ str_int k @ '' not found for config_id '' @ quoted cid)), c)"
  using assms
  by (simp add: rollback_config_def get_config_version_def find_one_def raises_def)

text \<open>
  C2. When version \<open>k\<close> of \<^verbatim>\<open>config_id\<close> is stored, a \<^verbatim>\<open>rollback_config\<close> that
  runs alone on an available store appends and returns one document: its version is the
  greatest stored version of the \<^verbatim>\<open>config_id\<close> plus one, its settings are those of
  version \<open>k\<close>, its updated_at is the current time, and its change_notes are the
  caller's, or \<^verbatim>\<open>Rolled back to version k\<close> when the caller gives none. When version
  \<open>k\<close> is not stored, the call raises the not-found \<^verbatim>\<open>ValueError\<close> and the
  collection is unchanged.
\<close>

theorem rollback_config_semantics:
  "(get_config_version None c cid k = Some tg \<longrightarrow>
      (\<exists>d. rollback_config (alone t None) c cid k who cn =
              (Inr d, \<lparr>docs = docs c @ [d], next_oid = Suc (next_oid c)\<rparr>)
           \<and> config_id d = cid \<and> version d = Max (set (versions_of cid c)) + 1
           \<and> settings d = settings tg \<and> updated_at d = t
           \<and> change_notes d = py_or cn (''Rolled back to version '' @ str_int k)
           \<and> (cn = None \<longrightarrow> change_notes d = ''Rolled back to version '' @ str_int k)))
   \<and> (get_config_version None c cid k = None \<longrightarrow> fault e = None \<longrightarrow>
        rollback_config e c cid k who cn =
          (Inl (ValueError (''Version '' @ str_int k @ '' not found for config_id '' @ quoted cid)), c))"
proof (intro conjI impI)
  assume "get_config_version None c cid k = Some tg"
  from rollback_config_found [OF this, of t who cn] obtain d where
    d: "rollback_config (alone t None) c cid k who cn =
              (Inr d, \<lparr>docs = docs c @ [d], next_oid = Suc (next_oid c)\<rparr>)"
       "config_id d = cid" "version d = Max (set (versions_of cid c)) + 1"
       "settings d = settings tg" "updated_at d = t"
       "change_notes d = py_or cn (''Rolled back to version '' @ str_int k)"
    by blast
  then have "cn = None \<longrightarrow> change_notes d = ''Rolled back to version '' @ str_int k"
    by (simp add: py_or_def)
  with d show "\<exists>d. rollback_config (alone t None) c cid k who cn =
              (Inr d, \<lparr>docs = docs c @ [d], next_oid = Suc (next_oid c)\<rparr>)
           \<and> config_id d = cid \<and> version d = Max (set (versions_of cid c)) + 1
           \<and> settings d = settings tg \<and> updated_at d = t
           \<and> change_notes d = py_or cn (''Rolled back to version '' @ str_int k)
           \<and> (cn = None \<longrightarrow> change_notes d = ''Rolled back to version '' @ str_int k)"
    by blast
next
  assume "get_config_version None c cid k = None" "fault e = None"
  then show "rollback_config e c cid k who cn =
          (Inl (ValueError (''Version '' @ str_int k @ '' not found for config_id '' @ quoted cid)), c)"
    by (rule rollback_config_not_found)
qed

lemma get_v1: "get_config_version None \<lparr>docs = [v1, v2], next_oid = 2\<rparr> ''cfg1'' 1 = Some v1"
  by code_simp

lemma get_v7: "get_config_version None \<lparr>docs = [v1, v2], next_oid = 2\<rparr> ''cfg1'' 7 = None"
  by code_simp

lemma rollback_v7:
  "rollback_config (alone ''t3'' None) \<lparr>docs = [v1, v2], next_oid = 2\<rparr> ''cfg1'' 7
         (Some ''bob'') None =
     (Inl (ValueError (''Version 7 not found for config_id '' @ quoted ''cfg1'')),
      \<lparr>docs = [v1, v2], next_oid = 2\<rparr>)"
  by code_simp

theorem rollback_config_semantics_witness:
  "get_config_version None \<lparr>docs = [v1, v2], next_oid = 2\<rparr> ''cfg1'' 1 = Some v1
   \<and> rollback_config (alone ''t3'' None) \<lparr>docs = [v1, v2], next_oid = 2\<rparr> ''cfg1'' 1
         (Some ''bob'') None = (Inr v3, \<lparr>docs = [v1, v2, v3], next_oid = 3\<rparr>)
   \<and> version v3 = 3 \<and> settings v3 = settings v1 \<and> updated_at v3 = ''t3''
   \<and> change_notes v3 = ''Rolled back to version 1''
   \<and> get_config_version None \<lparr>docs = [v1, v2], next_oid = 2\<rparr> ''cfg1'' 7 = None
   \<and> fault (alone ''t3'' None) = None
   \<and> rollback_config (alone ''t3'' None) \<lparr>docs = [v1, v2], next_oid = 2\<rparr> ''cfg1'' 7
         (Some ''bob'') None =
       (Inl (ValueError (''Version 7 not found for config_id '' @ quoted ''cfg1'')),
        \<lparr>docs = [v1, v2], next_oid = 2\<rparr>)"
  using rollback_config_semantics
          [where c = "\<lparr>docs = [v1, v2], next_oid = 2\<rparr>" and cid = "''cfg1''" and k = 1
             and tg = v1 and t = "''t3''" and who = "Some ''bob''" and cn = None
             and e = "alone ''t3'' None"]
        rollback_config_semantics
          [where c = "\<lparr>docs = [v1, v2], next_oid = 2\<rparr>" and cid = "''cfg1''" and k = 7
             and tg = v1 and t = "''t3''" and who = "Some ''bob''" and cn = None
             and e = "alone ''t3'' None"]
        get_v1 get_v7 rollback_cfg1 rollback_v7
  by (simp add: v1_def v3_def alone_def)

subsection \<open>Duplicate creation\<close>

text \<open>
  C3. What \<^verbatim>\<open>create_config\<close> does with a \<^verbatim>\<open>config_id\<close> that exists. When the
  pre-check read finds a document, the \<^verbatim>\<open>ValueError\<close> raised in the body is caught
  by \<^verbatim>\<open>except Exception\<close> and leaves as the \<^verbatim>\<open>RuntimeError\<close> that wraps every
  failure; nothing is inserted. When the pre-check finds nothing and another caller
  inserts version 1 before this call's insert, the store's \<^verbatim>\<open>DuplicateKeyError\<close>
  leaves as the already-exists \<^verbatim>\<open>ValueError\<close>; this call inserts nothing.
\<close>

theorem create_duplicate_errors:
  "(required_fields cd = Inr (cid, app, environ, s) \<longrightarrow>
      find (has_id cid) (docs c) = Some x \<longrightarrow> raises (fault e) 0 = None \<longrightarrow>
        create_config e c cd who cn =
          (Inl (RuntimeError (''Failed to create configuration: '' @ already_exists_msg cid)), c))
   \<and> (required_fields cd = Inr (cid, app, environ, s) \<longrightarrow>
        find (has_id cid) (docs c) = None \<longrightarrow> fault e = None \<longrightarrow>
        find (has_key cid 1) (docs (interfere (others e 0) c)) = Some y \<longrightarrow>
          create_config e c cd who cn =
            (Inl (ValueError (already_exists_msg cid)), interfere (others e 0) c))"
  by (simp add: create_config_def find_one_def insert_one_def raises_def Let_def)

lemma create_after_create:
  "create_config (alone ''t2'' None) \<lparr>docs = [v1], next_oid = 1\<rparr> cfg1 None None =
     (Inl (RuntimeError (''Failed to create configuration: '' @ already_exists_msg ''cfg1'')),
      \<lparr>docs = [v1], next_oid = 1\<rparr>)"
  by code_simp

lemma create_racing_create:
  "create_config \<lparr>now = ''t2'', fault = None, others = (\<lambda>k. [v1])\<rparr> empty_collection
       cfg1 None None =
     (Inl (ValueError (already_exists_msg ''cfg1'')), \<lparr>docs = [v1], next_oid = 1\<rparr>)"
  by code_simp

theorem create_duplicate_errors_witness:
  "required_fields cfg1 = Inr (''cfg1'', ''X'', ''dev'', JObj [(''a'', JNum 1)])
   \<and> find (has_id ''cfg1'') (docs \<lparr>docs = [v1], next_oid = 1\<rparr>) = Some v1
   \<and> raises (fault (alone ''t2'' None)) 0 = None
   \<and> create_config (alone ''t2'' None) \<lparr>docs = [v1], next_oid = 1\<rparr> cfg1 None None =
       (Inl (RuntimeError (''Failed to create configuration: '' @ already_exists_msg ''cfg1'')),
        \<lparr>docs = [v1], next_oid = 1\<rparr>)
   \<and> find (has_id ''cfg1'') (docs empty_collection) = None
   \<and> fault \<lparr>now = ''t2'', fault = None, others = (\<lambda>k. [v1])\<rparr> = None
   \<and> find (has_key ''cfg1'' 1)
        (docs (interfere (others \<lparr>now = ''t2'', fault = None, others = (\<lambda>k. [v1])\<rparr> 0)
                 empty_collection)) = Some v1
   \<and> create_config \<lparr>now = ''t2'', fault = None, others = (\<lambda>k. [v1])\<rparr> empty_collection
         cfg1 None None =
       (Inl (ValueError (already_exists_msg ''cfg1'')),
        interfere (others \<lparr>now = ''t2'', fault = None, others = (\<lambda>k. [v1])\<rparr> 0)
          empty_collection)"
proof -
  have a: "required_fields cfg1 = Inr (''cfg1'', ''X'', ''dev'', JObj [(''a'', JNum 1)])"
    by code_simp
  have b: "find (has_id ''cfg1'') (docs \<lparr>docs = [v1], next_oid = 1\<rparr>) = Some v1"
    by code_simp
  have r: "raises (fault (alone ''t2'' None)) 0 = None"
    by code_simp
  have c: "find (has_id ''cfg1'') (docs empty_collection) = None"
    by code_simp
  have f: "fault \<lparr>now = ''t2'', fault = None, others = (\<lambda>k. [v1])\<rparr> = None"
    by simp
  have e: "find (has_key ''cfg1'' 1)
        (docs (interfere (others \<lparr>now = ''t2'', fault = None, others = (\<lambda>k. [v1])\<rparr> 0)
                 empty_collection)) = Some v1"
    by code_simp
  note first = create_duplicate_errors
         [where cd = cfg1 and cid = "''cfg1''" and app = "''X''" and environ = "''dev''"
            and s = "JObj [(''a'', JNum 1)]" and c = "\<lparr>docs = [v1], next_oid = 1\<rparr>"
            and x = v1 and e = "alone ''t2'' None" and who = None and cn = None,
          THEN conjunct1, rule_format, OF a b r]
  note second = create_duplicate_errors
         [where cd = cfg1 and cid = "''cfg1''" and app = "''X''" and environ = "''dev''"
            and s = "JObj [(''a'', JNum 1)]" and c = empty_collection
            and e = "\<lparr>now = ''t2'', fault = None, others = (\<lambda>k. [v1])\<rparr>"
            and who = None and cn = None and y = v1,
          THEN conjunct2, rule_format, OF a c f e]
  show ?thesis
    by (intro conjI) (rule a b r first c f e second)+
qed

subsection \<open>Reads that fail\<close>

text \<open>
  C9. \<^verbatim>\<open>get_config_version\<close> returns \<^verbatim>\<open>None\<close> whenever its store call fails,
  also for a version that is stored: the same value as for a version that is not stored.
\<close>

theorem get_config_version_hides_store_failure:
  "get_config_version (Some m) c cid v = None
   \<and> get_config_version None \<lparr>docs = [v1], next_oid = 1\<rparr> ''cfg1'' 1 = Some v1
   \<and> get_config_version (Some ''connection lost'') \<lparr>docs = [v1], next_oid = 1\<rparr> ''cfg1'' 1 = None
   \<and> get_config_version None \<lparr>docs = [v1], next_oid = 1\<rparr> ''cfg1'' 2 = None"
proof (intro conjI)
  show "get_config_version (Some m) c cid v = None"
    by (simp add: get_config_version_def find_one_def)
  show "get_config_version None \<lparr>docs = [v1], next_oid = 1\<rparr> ''cfg1'' 1 = Some v1"
    by code_simp
  show "get_config_version (Some ''connection lost'') \<lparr>docs = [v1], next_oid = 1\<rparr> ''cfg1'' 1 = None"
    by code_simp
  show "get_config_version None \<lparr>docs = [v1], next_oid = 1\<rparr> ''cfg1'' 2 = None"
    by code_simp
qed

subsection \<open>Stored documents are never changed\<close>

lemma insert_one_appends:
  "insert_one f c d = Inr (c', i) \<Longrightarrow> \<exists>ys. docs c' = docs c @ ys"
  by (auto dest: insert_one_Inr)

lemma interfere_appends: "\<exists>ys. docs (interfere ds c) = docs c @ ys"
proof (induction ds arbitrary: c)
  case Nil
  then show ?case by simp
next
  case (Cons d ds)
  show ?case
  proof (cases "insert_one None c d")
    case (Inl x)
    with Cons.IH [of c] show ?thesis by simp
  next
    case (Inr p)
    obtain c' i where p: "p = (c', i)" by (cases p)
    from Inr p insert_one_appends obtain ys where ys: "docs c' = docs c @ ys" by blast
    from Cons.IH [of c'] obtain zs where "docs (interfere ds c') = docs c' @ zs" by blast
    with ys Inr p show ?thesis by simp
  qed
qed

lemma create_config_appends: "\<exists>ys. docs (snd (create_config e c cd who cn)) = docs c @ ys"
proof -
  obtain ys where ys: "docs (interfere (others e 0) c) = docs c @ ys"
    using interfere_appends by blast
  show ?thesis
    using ys
    by (auto simp: create_config_def Let_def
             split: sum.splits option.splits prod.splits dest!: insert_one_Inr)
qed

lemma update_config_appends: "\<exists>ys. docs (snd (update_config e c cid s who cn)) = docs c @ ys"
proof -
  obtain ys where ys: "docs (interfere (others e 0) c) = docs c @ ys"
    using interfere_appends by blast
  show ?thesis
    using ys
    by (auto simp: update_config_def Let_def
             split: sum.splits option.splits prod.splits dest!: insert_one_Inr)
qed

lemma rollback_config_appends: "\<exists>ys. docs (snd (rollback_config e c cid k who cn)) = docs c @ ys"
proof -
  obtain ys where ys: "docs (interfere (others e 0) c) = docs c @ ys"
    using interfere_appends by blast
  obtain zs where zs: "docs (interfere (others e 1) (interfere (others e 0) c)) =
      docs (interfere (others e 0) c) @ zs"
    using interfere_appends by blast
  show ?thesis
    using ys zs
    by (auto simp: rollback_config_def Let_def
             split: sum.splits option.splits prod.splits dest!: insert_one_Inr)
qed

lemma apply_call_appends: "\<exists>ys. docs (snd (apply_call e c k)) = docs c @ ys"
  by (cases k) (simp_all add: create_config_appends update_config_appends rollback_config_appends)

lemma run_appends: "\<exists>ys. docs (run c ks) = docs c @ ys"
proof (induction ks arbitrary: c)
  case Nil
  then show ?case by simp
next
  case (Cons a ks)
  obtain e k where a: "a = (e, k)" by (cases a)
  from apply_call_appends obtain ys where ys: "docs (snd (apply_call e c k)) = docs c @ ys"
    by blast
  from Cons.IH obtain zs where
    "docs (run (snd (apply_call e c k)) ks) = docs (snd (apply_call e c k)) @ zs"
    by blast
  with ys a show ?case by simp
qed

lemma get_config_version_append:
  assumes "get_config_version None c cid v = Some d" "docs c' = docs c @ ys"
  shows "get_config_version None c' cid v = Some d"
  using assms by (simp add: get_config_version_def find_one_def find_append_Some)

text \<open>
  C6. Whatever create, update and rollback calls run, alone or with other callers'
  inserts landing between their store calls, the collection afterwards is the
  collection before with documents appended: none is changed or removed. So a
  \<^verbatim>\<open>(config_id, version)\<close> that \<^verbatim>\<open>get_config_version\<close> found before the calls is
  found after them as the identical document (settings, created_at, app_name and
  environment included).
\<close>

theorem stored_versions_immutable:
  "(\<exists>ys. docs (run c ks) = docs c @ ys)
   \<and> (get_config_version None c cid v = Some d \<longrightarrow>
        get_config_version None (run c ks) cid v = Some d)"
proof (intro conjI impI)
  show "\<exists>ys. docs (run c ks) = docs c @ ys" by (rule run_appends)
next
  assume g: "get_config_version None c cid v = Some d"
  from run_appends obtain ys where "docs (run c ks) = docs c @ ys" by blast
  with g show "get_config_version None (run c ks) cid v = Some d"
    by (rule get_config_version_append)
qed

lemma get_v1_first: "get_config_version None \<lparr>docs = [v1], next_oid = 1\<rparr> ''cfg1'' 1 = Some v1"
  by code_simp

lemma run_tail:
  "run \<lparr>docs = [v1], next_oid = 1\<rparr> (sequential (tl scenario)) =
     \<lparr>docs = [v1, v2, v3], next_oid = 3\<rparr>"
  by code_simp

theorem stored_versions_immutable_witness:
  "get_config_version None \<lparr>docs = [v1], next_oid = 1\<rparr> ''cfg1'' 1 = Some v1
   \<and> run \<lparr>docs = [v1], next_oid = 1\<rparr> (sequential (tl scenario)) =
       \<lparr>docs = [v1, v2, v3], next_oid = 3\<rparr>
   \<and> get_config_version None \<lparr>docs = [v1, v2, v3], next_oid = 3\<rparr> ''cfg1'' 1 = Some v1"
proof -
  note step = stored_versions_immutable
    [where c = "\<lparr>docs = [v1], next_oid = 1\<rparr>" and ks = "sequential (tl scenario)"
       and cid = "''cfg1''" and v = 1 and d = v1, THEN conjunct2, rule_format, OF get_v1_first]
  from step have "get_config_version None \<lparr>docs = [v1, v2, v3], next_oid = 3\<rparr> ''cfg1'' 1 = Some v1"
    by (simp only: run_tail)
  with get_v1_first run_tail show ?thesis by blast
qed

section \<open>Properties of webhook delivery\<close>

subsection \<open>The retry loop\<close>


lemma attempt_once_config: "attempt_once w p = attempt_once w' p"
  by (simp add: attempt_once_def dispatch_webhook_def)

lemma retrying_config: "retrying w posts n = retrying w' posts n"
proof (induction w posts n rule: retrying.induct)
  case (1 w posts n)
  show ?case
  proof (cases "attempt_once w (posts (n - 1))")
    case (Returned r)
    then have "attempt_once w' (posts (n - 1)) = Returned r"
      using attempt_once_config [of w' "posts (n - 1)" w] by simp
    with Returned show ?thesis
      by (simp add: retrying.simps [of w posts n] retrying.simps [of w' posts n])
  next
    case (ConnectionError m)
    then have c': "attempt_once w' (posts (n - 1)) = ConnectionError m"
      using attempt_once_config [of w' "posts (n - 1)" w] by simp
    show ?thesis
    proof (cases "stop_after_attempt \<le> n")
      case True
      with ConnectionError c' show ?thesis
        by (simp add: retrying.simps [of w posts n] retrying.simps [of w' posts n])
    next
      case False
      with 1 [OF ConnectionError] ConnectionError c' show ?thesis
        by (simp add: retrying.simps [of w posts n] retrying.simps [of w' posts n])
    qed
  qed
qed

lemma attempt_transient: "transient p \<Longrightarrow> \<exists>m. attempt_once w p = ConnectionError m"
  by (cases p) (auto simp: attempt_once_def dispatch_webhook_def Let_def)

lemma attempt_delivered:
  "delivered p \<Longrightarrow> attempt_once w p = Returned (dispatch_webhook w p) \<and> success (dispatch_webhook w p)"
  by (cases p) (auto simp: attempt_once_def dispatch_webhook_def Let_def)

lemma retrying_delivered:
  assumes "delivered (posts (n - 1))"
  shows "retrying w posts n = (Inr (dispatch_webhook w (posts (n - 1))), n)"
  using attempt_delivered [OF assms, of w] by (simp add: retrying.simps [of w posts n])

lemma retrying_transient:
  assumes "transient (posts (n - 1))" "n < stop_after_attempt"
  shows "retrying w posts n = retrying w posts (Suc n)"
proof -
  from attempt_transient [OF assms(1), of w] obtain m where
    "attempt_once w (posts (n - 1)) = ConnectionError m" by blast
  with assms(2) show ?thesis by (simp add: retrying.simps [of w posts n])
qed

lemma retrying_exhausted:
  assumes "transient (posts (n - 1))" "stop_after_attempt \<le> n"
  shows "\<exists>m. retrying w posts n = (Inl (RetryError m), n)"
proof -
  from attempt_transient [OF assms(1), of w] obtain m where
    "attempt_once w (posts (n - 1)) = ConnectionError m" by blast
  with assms(2) show ?thesis by (simp add: retrying.simps [of w posts n])
qed

lemma retrying_reaches:
  "k \<le> n \<Longrightarrow> n \<le> stop_after_attempt \<Longrightarrow>
     (\<forall>j. k \<le> j \<and> j < n \<longrightarrow> transient (posts (j - 1))) \<Longrightarrow>
     retrying w posts k = retrying w posts n"
proof (induction "n - k" arbitrary: k)
  case 0
  then show ?case by simp
next
  case (Suc d)
  then have lt: "k < n" by simp
  with Suc.prems have "transient (posts (k - 1))" by simp
  moreover from lt Suc.prems have "k < stop_after_attempt" by simp
  ultimately have "retrying w posts k = retrying w posts (Suc k)"
    by (rule retrying_transient)
  moreover have "retrying w posts (Suc k) = retrying w posts n"
  proof (rule Suc.hyps(1))
    show "d = n - Suc k" using Suc.hyps(2) by simp
    show "Suc k \<le> n" using lt by simp
    show "n \<le> stop_after_attempt" by (rule Suc.prems(2))
    show "\<forall>j. Suc k \<le> j \<and> j < n \<longrightarrow> transient (posts (j - 1))"
      using Suc.prems(3) by simp
  qed
  ultimately show ?case by simp
qed

lemma dispatch_with_retry_success:
  assumes n: "n < 3" and tr: "\<forall>k<n. transient (posts k)" and ok: "delivered (posts n)"
  shows "dispatch_with_retry w posts = (Inr (dispatch_webhook w (posts n)), Suc n)"
proof -
  have "retrying w posts 1 = retrying w posts (Suc n)"
  proof (rule retrying_reaches)
    show "1 \<le> Suc n" by simp
    show "Suc n \<le> stop_after_attempt" using n by (simp add: stop_after_attempt_def)
    show "\<forall>j. 1 \<le> j \<and> j < Suc n \<longrightarrow> transient (posts (j - 1))"
    proof (intro allI impI)
      fix j assume "1 \<le> j \<and> j < Suc n"
      then have "j - 1 < n" by arith
      with tr show "transient (posts (j - 1))" by blast
    qed
  qed
  moreover have "retrying w posts (Suc n) = (Inr (dispatch_webhook w (posts n)), Suc n)"
    using retrying_delivered [of posts "Suc n" w] ok by simp
  ultimately show ?thesis by (simp add: dispatch_with_retry_def)
qed

lemma dispatch_with_retry_exhausted:
  assumes tr: "\<forall>k<3. transient (posts k)"
  shows "\<exists>m. dispatch_with_retry w posts = (Inl (RetryError m), 3)"
proof -
  have "retrying w posts 1 = retrying w posts 3"
  proof (rule retrying_reaches)
    show "(1::nat) \<le> 3" by simp
    show "3 \<le> stop_after_attempt" by (simp add: stop_after_attempt_def)
    show "\<forall>j. 1 \<le> j \<and> j < 3 \<longrightarrow> transient (posts (j - 1))"
    proof (intro allI impI)
      fix j :: nat assume "1 \<le> j \<and> j < 3"
      then have "j - 1 < 3" by arith
      with tr show "transient (posts (j - 1))" by blast
    qed
  qed
  moreover have "\<exists>m. retrying w posts 3 = (Inl (RetryError m), 3)"
  proof (rule retrying_exhausted)
    show "transient (posts (3 - 1))" using tr by simp
    show "stop_after_attempt \<le> 3" by (simp add: stop_after_attempt_def)
  qed
  ultimately show ?thesis by (simp add: dispatch_with_retry_def)
qed

lemma retrying_attempts: "snd (retrying w posts n) \<le> max n stop_after_attempt"
proof (induction w posts n rule: retrying.induct)
  case (1 w posts n)
  show ?case
  proof (cases "attempt_once w (posts (n - 1))")
    case (Returned r)
    then show ?thesis by (simp add: retrying.simps [of w posts n])
  next
    case (ConnectionError m)
    show ?thesis
    proof (cases "stop_after_attempt \<le> n")
      case True
      with ConnectionError show ?thesis by (simp add: retrying.simps [of w posts n])
    next
      case False
      with 1 [OF ConnectionError] ConnectionError show ?thesis
        by (simp add: retrying.simps [of w posts n])
    qed
  qed
qed

subsection \<open>The retry limit\<close>

lemma always_500:
  "dispatch_with_retry hook (\<lambda>k. Response 500 ''boom'') =
     (Inl (RetryError ''Webhook delivery failed: boom''), 3)"
  by code_simp

lemma once_404:
  "dispatch_with_retry hook (\<lambda>k. Response 404 ''no'') =
     (Inr \<lparr>status_code = Some 404, response_text = ''no'', success = False\<rparr>, 1)"
  by code_simp

text \<open>
  C7. The retry loop does not read the subscriber's \<^verbatim>\<open>retry_attempts\<close>: the result
  and the number of attempts are the same whatever its value, and never more than the
  three attempts of \<^verbatim>\<open>stop_after_attempt(3)\<close>. A subscriber configured for five
  attempts that always answers 500 is tried three times; a 404 is returned after one
  attempt.
\<close>

theorem retry_limit_ignores_subscriber:
  "dispatch_with_retry (w\<lparr>retry_attempts := a\<rparr>) posts = dispatch_with_retry w posts
   \<and> snd (dispatch_with_retry w posts) \<le> 3
   \<and> retry_attempts hook = 5
   \<and> dispatch_with_retry hook (\<lambda>k. Response 500 ''boom'') =
       (Inl (RetryError ''Webhook delivery failed: boom''), 3)
   \<and> dispatch_with_retry hook (\<lambda>k. Response 404 ''no'') =
       (Inr \<lparr>status_code = Some 404, response_text = ''no'', success = False\<rparr>, 1)"
proof (intro conjI)
  show "dispatch_with_retry (w\<lparr>retry_attempts := a\<rparr>) posts = dispatch_with_retry w posts"
    unfolding dispatch_with_retry_def by (rule retrying_config)
  show "snd (dispatch_with_retry w posts) \<le> 3"
    using retrying_attempts [of w posts 1]
    by (simp add: dispatch_with_retry_def stop_after_attempt_def)
  show "retry_attempts hook = 5" by (simp add: hook_def)
  show "dispatch_with_retry hook (\<lambda>k. Response 500 ''boom'') =
       (Inl (RetryError ''Webhook delivery failed: boom''), 3)"
    by (rule always_500)
  show "dispatch_with_retry hook (\<lambda>k. Response 404 ''no'') =
       (Inr \<lparr>status_code = Some 404, response_text = ''no'', success = False\<rparr>, 1)"
    by (rule once_404)
qed

theorem retry_limit_ignores_subscriber_witness:
  "dispatch_with_retry (hook\<lparr>retry_attempts := 1\<rparr>) (\<lambda>k. Response 500 ''boom'') =
     dispatch_with_retry hook (\<lambda>k. Response 500 ''boom'')
   \<and> snd (dispatch_with_retry hook (\<lambda>k. Response 500 ''boom'')) \<le> 3"
  using retry_limit_ignores_subscriber
          [where w = hook and a = 1 and posts = "\<lambda>k. Response 500 ''boom''"]
  by blast

subsection \<open>The counters\<close>

lemma counters_of_setdefault: "counters_of (setdefault st u) u = counters_of st u"
  by (simp add: counters_of_def setdefault_def split: option.splits)

lemma setdefault_other: "u' \<noteq> u \<Longrightarrow> setdefault st u u' = st u'"
  by (simp add: setdefault_def split: option.splits)

lemma counters_of_upd: "counters_of (st(u \<mapsto> x)) u = x"
  by (simp add: counters_of_def)

text \<open>
  C8. A delivery whose three attempts all fail transiently leaves the manager's
  counters as they were: \<^verbatim>\<open>dispatch_with_retry\<close> raises \<^verbatim>\<open>RetryError\<close> and the
  thread ends before either counter is incremented.
\<close>

theorem exhausted_delivery_not_counted:
  "(\<forall>k<3. transient (posts k)) \<longrightarrow> dispatch_webhook_async w posts manager = manager"
proof
  assume "\<forall>k<3. transient (posts k)"
  from dispatch_with_retry_exhausted [OF this, of w] obtain m where
    "dispatch_with_retry w posts = (Inl (RetryError m), 3)" by blast
  then show "dispatch_webhook_async w posts manager = manager"
    by (simp add: dispatch_webhook_async_def)
qed

theorem exhausted_delivery_not_counted_witness:
  "transient (Response 500 ''boom'')
   \<and> dispatch_webhook_async hook (\<lambda>k. Response 500 ''boom'')
        (Some [url hook \<mapsto> \<lparr>successes = 0, failures = 0\<rparr>]) =
      Some [url hook \<mapsto> \<lparr>successes = 0, failures = 0\<rparr>]"
proof -
  have t: "transient (Response 500 ''boom'')" by simp
  then have "\<forall>k<3. transient ((\<lambda>k. Response 500 ''boom'') k)" by simp
  with exhausted_delivery_not_counted
         [where posts = "\<lambda>k. Response 500 ''boom''" and w = hook
            and manager = "Some [url hook \<mapsto> \<lparr>successes = 0, failures = 0\<rparr>]"]
  have "dispatch_webhook_async hook (\<lambda>k. Response 500 ''boom'')
        (Some [url hook \<mapsto> \<lparr>successes = 0, failures = 0\<rparr>]) =
      Some [url hook \<mapsto> \<lparr>successes = 0, failures = 0\<rparr>]"
    by blast
  with t show ?thesis by blast
qed

text \<open>
  C10. A delivery whose first, second or third attempt is answered 2xx, every earlier
  attempt having failed transiently, increments the subscriber's success counter by
  one and leaves its failure counter and every other subscriber's counters unchanged.
\<close>

theorem success_counted_once:
  assumes "n < 3" and "\<forall>k<n. transient (posts k)" and "delivered (posts n)"
  shows "\<exists>st'. dispatch_webhook_async w posts (Some st) = Some st'
           \<and> successes (counters_of st' (url w)) = successes (counters_of st (url w)) + 1
           \<and> failures (counters_of st' (url w)) = failures (counters_of st (url w))
           \<and> (\<forall>u. u \<noteq> url w \<longrightarrow> st' u = st u)"
proof -
  let ?r = "dispatch_webhook w (posts n)"
  from dispatch_with_retry_success [OF assms, of w]
  have d: "fst (dispatch_with_retry w posts) = Inr ?r" by simp
  from attempt_delivered [OF assms(3), of w] have ok: "success ?r" by simp
  let ?st1 = "setdefault st (url w)"
  let ?c = "counters_of ?st1 (url w)"
  let ?st' = "?st1(url w \<mapsto> ?c\<lparr>successes := successes ?c + 1\<rparr>)"
  from d ok have "dispatch_webhook_async w posts (Some st) = Some ?st'"
    by (simp add: dispatch_webhook_async_def Let_def)
  moreover have "successes (counters_of ?st' (url w)) = successes (counters_of st (url w)) + 1"
    by (simp add: counters_of_upd counters_of_setdefault)
  moreover have "failures (counters_of ?st' (url w)) = failures (counters_of st (url w))"
    by (simp add: counters_of_upd counters_of_setdefault)
  moreover have "\<forall>u. u \<noteq> url w \<longrightarrow> ?st' u = st u"
    by (simp add: setdefault_other)
  ultimately show ?thesis by blast
qed

theorem success_counted_once_witness:
  "(2::nat) < 3 \<and> transient (flaky 0) \<and> transient (flaky 1) \<and> delivered (flaky 2)
   \<and> successes (counters_of (the (dispatch_webhook_async hook flaky (Some Map.empty))) (url hook)) = 1
   \<and> failures (counters_of (the (dispatch_webhook_async hook flaky (Some Map.empty))) (url hook)) = 0"
proof -
  have t0: "transient (flaky 0)" and t1: "transient (flaky 1)" and ok: "delivered (flaky 2)"
    by (simp_all add: flaky_def)
  have tr: "\<forall>k<2. transient (flaky k)" by (simp add: flaky_def)
  have lt: "(2::nat) < 3" by simp
  from success_counted_once [OF lt tr ok, of hook Map.empty] obtain st' where
    st': "dispatch_webhook_async hook flaky (Some Map.empty) = Some st'"
      "successes (counters_of st' (url hook)) = successes (counters_of Map.empty (url hook)) + 1"
      "failures (counters_of st' (url hook)) = failures (counters_of Map.empty (url hook))"
    by blast
  then have "successes (counters_of (the (dispatch_webhook_async hook flaky (Some Map.empty))) (url hook)) = 1"
    and "failures (counters_of (the (dispatch_webhook_async hook flaky (Some Map.empty))) (url hook)) = 0"
    by (simp_all add: counters_of_def)
  with lt t0 t1 ok show ?thesis by blast
qed

section \<open>Properties of query_configs\<close>

subsection \<open>The stages of the pipeline\<close>

lemma match_stage_iff:
  "match_stage app environ d =
     ((app = None \<or> app = Some [] \<or> app = Some (app_name d)) \<and>
      (environ = None \<or> environ = Some [] \<or> environ = Some (environment d)))"
  by (auto simp: match_stage_def criterion_def truthy_def split: option.splits)

lemma match_stage_same_identity:
  "same_identity e d \<Longrightarrow> match_stage app environ d \<Longrightarrow> match_stage app environ e"
  by (simp add: match_stage_iff same_identity_def)

lemma distinct_map_insort_key:
  "distinct (map f (insort_key f x xs)) = (f x \<notin> f ` set xs \<and> distinct (map f xs))"
  by (induction xs) (auto simp: set_insort_key)

lemma distinct_map_sort_key: "distinct (map f (sort_key f xs)) = distinct (map f xs)"
  by (induction xs) (simp_all add: distinct_map_insort_key)

lemma set_group_first: "set (group_first xs) \<subseteq> set xs"
  by (induction xs) auto

lemma ids_group_first: "config_id ` set (group_first xs) = config_id ` set xs"
proof (induction xs)
  case Nil
  then show ?case by simp
next
  case (Cons x xs)
  have "config_id ` set (filter (\<lambda>e. config_id e \<noteq> config_id x) (group_first xs)) =
        config_id ` set (group_first xs) - {config_id x}"
    by auto
  with Cons show ?case by auto
qed

lemma distinct_group_first: "distinct (map config_id (group_first xs))"
  by (induction xs) (auto simp: distinct_map_filter)

lemma group_first_least:
  assumes "sorted (map (\<lambda>d. (config_id d, - version d)) xs)"
    and "d \<in> set (group_first xs)" and "e \<in> set xs" and "config_id e = config_id d"
  shows "version e \<le> version d"
  using assms
proof (induction xs)
  case Nil
  then show ?case by simp
next
  case (Cons x xs)
  from Cons.prems(1) have tail: "sorted (map (\<lambda>d. (config_id d, - version d)) xs)"
    and head: "\<forall>y \<in> set xs. (config_id x, - version x) \<le> (config_id y, - version y)"
    by simp_all
  show ?case
  proof (cases "d = x")
    case True
    show ?thesis
    proof (cases "e = x")
      case True
      with \<open>d = x\<close> show ?thesis by simp
    next
      case False
      with Cons.prems(3) have "e \<in> set xs" by simp
      with head have "(config_id x, - version x) \<le> (config_id e, - version e)" by blast
      with True Cons.prems(4) show ?thesis by simp
    qed
  next
    case False
    with Cons.prems(2) have d: "d \<in> set (group_first xs)" and ne: "config_id d \<noteq> config_id x"
      by auto
    from ne Cons.prems(3,4) have "e \<in> set xs" by auto
    from Cons.IH [OF tail d this Cons.prems(4)] show ?thesis .
  qed
qed

lemma query_configs_result:
  "query_configs None c app environ =
     Inr (sort_key config_id (group_first (sort_stage (filter (match_stage app environ) (docs c)))))"
  by (simp add: query_configs_def aggregate_def)

text \<open>
  C5, as the code has it. A filter that is \<^verbatim>\<open>None\<close> or the empty string is not applied;
  any other is an equality on the field. On an available store \<^verbatim>\<open>query_configs\<close>
  returns documents of the collection that pass the filters, ordered by
  \<^verbatim>\<open>config_id\<close> ascending and with no \<^verbatim>\<open>config_id\<close> twice; every
  \<^verbatim>\<open>config_id\<close> with a passing document is returned, with a version that no passing
  document of that \<^verbatim>\<open>config_id\<close> exceeds. When app_name and environment are the same
  across the versions of each \<^verbatim>\<open>config_id\<close>, the returned document has the greatest
  version of all documents of its \<^verbatim>\<open>config_id\<close>.
\<close>

theorem query_configs_latest_matching:
  "\<exists>r. query_configs None c app environ = Inr r
     \<and> sorted (map config_id r) \<and> distinct (map config_id r)
     \<and> (\<forall>d \<in> set r. d \<in> set (docs c) \<and> match_stage app environ d)
     \<and> (\<forall>e \<in> set (docs c). match_stage app environ e \<longrightarrow>
           (\<exists>d \<in> set r. config_id d = config_id e \<and> version e \<le> version d))
     \<and> (uniform c \<longrightarrow>
           (\<forall>d \<in> set r. \<forall>e \<in> set (docs c). config_id e = config_id d \<longrightarrow> version e \<le> version d))
     \<and> (\<forall>d. match_stage app environ d =
            ((app = None \<or> app = Some [] \<or> app = Some (app_name d)) \<and>
             (environ = None \<or> environ = Some [] \<or> environ = Some (environment d))))"
proof -
  let ?m = "filter (match_stage app environ) (docs c)"
  let ?s = "sort_stage ?m"
  let ?g = "group_first ?s"
  let ?r = "sort_key config_id ?g"
  have sorted_s: "sorted (map (\<lambda>d. (config_id d, - version d)) ?s)"
    by (simp add: sort_stage_def)
  have set_s: "set ?s = set ?m" by (simp add: sort_stage_def)
  have set_r: "set ?r = set ?g" by simp
  have sub: "set ?r \<subseteq> set ?m" using set_group_first [of ?s] set_s set_r by simp
  have q: "query_configs None c app environ = Inr ?r" by (rule query_configs_result)
  have s1: "sorted (map config_id ?r)" by simp
  have s2: "distinct (map config_id ?r)"
    by (simp add: distinct_map_sort_key distinct_group_first)
  have s3: "\<forall>d \<in> set ?r. d \<in> set (docs c) \<and> match_stage app environ d"
    using sub by auto
  have s4: "\<forall>e \<in> set (docs c). match_stage app environ e \<longrightarrow>
           (\<exists>d \<in> set ?r. config_id d = config_id e \<and> version e \<le> version d)"
  proof (intro ballI impI)
    fix e assume e: "e \<in> set (docs c)" and m: "match_stage app environ e"
    then have es: "e \<in> set ?s" using set_s by simp
    then have "config_id e \<in> config_id ` set ?g" by (simp add: ids_group_first)
    then obtain d where d: "d \<in> set ?g" "config_id d = config_id e" by auto
    have v: "version e \<le> version d"
      by (rule group_first_least [OF sorted_s d(1) es d(2) [symmetric]])
    from d(1) have "d \<in> set ?r" by (simp only: set_sort)
    with d(2) v show "\<exists>d \<in> set ?r. config_id d = config_id e \<and> version e \<le> version d"
      by blast
  qed
  have s5: "uniform c \<longrightarrow>
           (\<forall>d \<in> set ?r. \<forall>e \<in> set (docs c). config_id e = config_id d \<longrightarrow> version e \<le> version d)"
  proof (intro impI ballI)
    fix d e
    assume u: "uniform c" and d: "d \<in> set ?r" and e: "e \<in> set (docs c)"
      and id: "config_id e = config_id d"
    from s3 [rule_format, OF d] have dd: "d \<in> set (docs c)"
      and dm: "match_stage app environ d" by blast+
    from u have "\<forall>a \<in> set (docs c). \<forall>b \<in> set (docs c).
        config_id a = config_id b \<longrightarrow> same_identity a b"
      by (simp only: uniform_def)
    with e dd id have "same_identity e d" by blast
    then have "match_stage app environ e" using dm by (rule match_stage_same_identity)
    with s4 [rule_format, OF e] obtain d' where
      d': "d' \<in> set ?r" "config_id d' = config_id e" "version e \<le> version d'"
      by blast
    from s2 have inj: "inj_on config_id (set ?r)" by (simp only: distinct_map)
    have same: "config_id d' = config_id d" using d'(2) id by (rule trans)
    from inj same d'(1) d have "d' = d" by (rule inj_onD)
    with d'(3) show "version e \<le> version d" by (simp only:)
  qed
  have s6: "\<forall>d. match_stage app environ d =
            ((app = None \<or> app = Some [] \<or> app = Some (app_name d)) \<and>
             (environ = None \<or> environ = Some [] \<or> environ = Some (environment d)))"
    by (simp add: match_stage_iff)
  show ?thesis
    by (intro exI [of _ ?r] conjI) (rule q s1 s2 s3 s4 s5 s6)+
qed

text \<open>
  C5 as stated fails twice. With the filter \<^verbatim>\<open>app_name=""\<close> a document whose
  app_name is not empty is returned. And in a collection where version 2 of
  \<^verbatim>\<open>cfg1\<close> carries another app_name than version 1, the filter on version 1's
  app_name returns version 1, which is not the maximum version of \<^verbatim>\<open>cfg1\<close>.
\<close>

theorem query_configs_counterexample:
  "query_configs None \<lparr>docs = [v1], next_oid = 1\<rparr> (Some []) None = Inr [v1]
   \<and> app_name v1 \<noteq> []
   \<and> query_configs None \<lparr>docs = [v1, v2\<lparr>app_name := ''Y''\<rparr>], next_oid = 2\<rparr> (Some ''X'') None
       = Inr [v1]
   \<and> config_id (v2\<lparr>app_name := ''Y''\<rparr>) = config_id v1
   \<and> version v1 < version (v2\<lparr>app_name := ''Y''\<rparr>)"
proof (intro conjI)
  show "query_configs None \<lparr>docs = [v1], next_oid = 1\<rparr> (Some []) None = Inr [v1]"
    by code_simp
  show "app_name v1 \<noteq> []" by (simp add: v1_def)
  show "query_configs None \<lparr>docs = [v1, v2\<lparr>app_name := ''Y''\<rparr>], next_oid = 2\<rparr> (Some ''X'') None
       = Inr [v1]"
    by code_simp
  show "config_id (v2\<lparr>app_name := ''Y''\<rparr>) = config_id v1" by (simp add: v1_def v2_def)
  show "version v1 < version (v2\<lparr>app_name := ''Y''\<rparr>)" by (simp add: v1_def v2_def)
qed

lemma query_population:
  "query_configs None population (Some ''X'') (Some []) = Inr [v3]"
  by code_simp

lemma query_population_all:
  "query_configs None population None None = Inr [other, v3]"
  by code_simp

lemma uniform_population: "uniform population"
  by code_simp

lemma v2_stored: "v2 \<in> set (docs population)"
  by (simp add: population_def)

lemma v2_v3_id: "config_id v2 = config_id v3"
  by (simp add: v2_def v3_def)

theorem query_configs_latest_matching_witness:
  "query_configs None population (Some ''X'') (Some []) = Inr [v3]
   \<and> uniform population
   \<and> v2 \<in> set (docs population) \<and> config_id v2 = config_id v3
   \<and> version v2 \<le> version v3
   \<and> match_stage (Some ''X'') (Some []) v3"
proof -
  from query_configs_latest_matching [of population "Some ''X''" "Some []"]
  obtain r where r: "query_configs None population (Some ''X'') (Some []) = Inr r"
    and m: "\<forall>d \<in> set r. d \<in> set (docs population) \<and> match_stage (Some ''X'') (Some []) d"
    and l: "uniform population \<longrightarrow>
           (\<forall>d \<in> set r. \<forall>e \<in> set (docs population).
              config_id e = config_id d \<longrightarrow> version e \<le> version d)"
    by blast
  from r query_population have "r = [v3]" by simp
  then have in_r: "v3 \<in> set r" by simp
  from l uniform_population in_r v2_stored v2_v3_id have le: "version v2 \<le> version v3"
    by blast
  from m in_r have "match_stage (Some ''X'') (Some []) v3" by blast
  with query_population uniform_population v2_stored v2_v3_id le show ?thesis
    by blast
qed

end
